theory Spec2Isabelle
  imports Main "HOL-Library.Sublist"
begin

section \<open>Data model\<close>

text \<open>
  Row identifiers are the primary keys of the relational store (time-sortable UUID
  strings in the source). Only their equality and their order (for \<open>desc(id)\<close>) are
  used, so they are natural numbers here. URIs, tokens and addresses are strings.
\<close>

type_synonym uuid = nat
type_synonym uri = string

datatype visibility = Public | Unlisted | Private | Direct

record user_row =
  user_id :: uuid
  user_uri :: "uri option"
  instanceId :: "string option"
  isLocked :: bool
  publicKey :: string
  displayName :: string

record note_row =
  note_id :: uuid
  authorId :: uuid
  note_uri :: "uri option"
  content :: string
  visibility :: visibility
  sensitive :: bool
  spoilerText :: string
  replyId :: "uuid option"
  quotingId :: "uuid option"

record relationship_row =
  rel_id :: uuid
  ownerId :: uuid
  subjectId :: uuid
  following :: bool
  requested :: bool
  showingReblogs :: bool
  notifying :: bool

datatype notification_type = Follow_notification | Follow_request_notification
  | Mention_notification

record notification_row =
  accountId :: uuid
  ntype :: notification_type
  notifiedId :: uuid
  noteId :: "uuid option"

text \<open>
  What the outbound federator is asked to deliver: a follow-accept, to the follower
  (first) from the followee (second), or the updated representation of an actor
  (first) to one of its followers (second).
\<close>

datatype outbound = FollowAccept_to uuid uuid | Actor_to uuid uuid

text \<open>
  The store: the tables the federation engine reads and writes, the supply of fresh
  primary keys, and the logs of what left the process: every outbound HTTP GET
  (\<open>fetched\<close>), every delivery handed to the outbound federator (\<open>outbox\<close>) and every
  registration with the search index (\<open>search_index\<close>).
\<close>

record store =
  Users :: "user_row list"
  Notes :: "note_row list"
  Relationships :: "relationship_row list"
  Notifications :: "notification_row list"
  NoteToMentions :: "(uuid \<times> uuid) list"
  EmojiToNote :: "(uuid \<times> uuid) list"
  EmojiToUser :: "(uuid \<times> uuid) list"
  Instances :: "string list"
  next_id :: uuid
  fetched :: "uri list"
  outbox :: "outbound list"
  search_index :: "uuid list"

text \<open>
  A \<open>Note\<close> object wraps a status row together with the relations loaded with it; the
  author relation is joined on \<open>Users.id = Notes.authorId\<close>, so \<open>getAuthor().id\<close> is the
  row's \<open>authorId\<close>, and \<open>mentions\<close> are the users joined through \<open>NoteToMentions\<close>.
\<close>

record Note =
  status :: note_row
  mentions :: "uuid list"

datatype 'row order_by = Desc "'row \<Rightarrow> nat" | Asc "'row \<Rightarrow> nat"

fun ordered :: "'row order_by \<Rightarrow> 'row list \<Rightarrow> 'row list" where
  "ordered (Asc k) rows = sort_key k rows"
| "ordered (Desc k) rows = rev (sort_key k rows)"

definition mentions_of :: "store \<Rightarrow> uuid \<Rightarrow> uuid list" where
  "mentions_of db nid = map snd (filter (\<lambda>(n, u). n = nid) (NoteToMentions db))"

definition with_relations :: "store \<Rightarrow> note_row \<Rightarrow> Note" where
  "with_relations db row = \<lparr>status = row, mentions = mentions_of db (note_id row)\<rparr>"

text \<open>
  Modelled from the spec: \<open>findManyNotes\<close> (entities/Status) is not among the sources;
  the relational store is "consumed through defined read/write operations". It is the
  query against the \<open>Notes\<close> table: the rows that satisfy the condition, in the given
  order, at most \<open>limit\<close> of them, each with its relations loaded. The id of the viewer
  that the source passes along only decorates the rows and is left out. Rows that the
  ordering does not tell apart come in the order of a stable sort.
\<close>

definition findManyNotes ::
  "store \<Rightarrow> (note_row \<Rightarrow> bool) \<Rightarrow> note_row order_by \<Rightarrow> nat option \<Rightarrow> Note list" where
  "findManyNotes db wh ob limit =
     (let found = ordered ob (filter wh (Notes db))
      in map (with_relations db) (case limit of None \<Rightarrow> found | Some l \<Rightarrow> take l found))"

definition Note_fromSql :: "store \<Rightarrow> (note_row \<Rightarrow> bool) \<Rightarrow> note_row order_by \<Rightarrow> Note option" where
  "Note_fromSql db wh ob =
     (case findManyNotes db wh ob (Some 1) of [] \<Rightarrow> None | n # _ \<Rightarrow> Some n)"

definition Note_manyFromSql :: "store \<Rightarrow> (note_row \<Rightarrow> bool) \<Rightarrow> note_row order_by \<Rightarrow> Note list" where
  "Note_manyFromSql db wh ob = findManyNotes db wh ob None"

definition Note_fromId :: "store \<Rightarrow> uuid option \<Rightarrow> Note option" where
  "Note_fromId db i =
     (case i of None \<Rightarrow> None
      | Some i' \<Rightarrow> Note_fromSql db (\<lambda>r. note_id r = i') (Desc note_id))"

definition getReplyChildren :: "store \<Rightarrow> Note \<Rightarrow> Note list" where
  "getReplyChildren db this =
     Note_manyFromSql db (\<lambda>r. replyId r = Some (note_id (status this))) (Desc note_id)"

section \<open>Visibility and thread engine\<close>

text \<open>
  What the source throws: \<open>Error\<close>, the runtime's \<open>TypeError\<close>, and the validation
  error of the request parser, each with its message.
\<close>

datatype error = Error string | TypeError string | ValidationError string

text \<open>
  The values \<open>isViewableByUser\<close> can produce are not all booleans: the private branch
  yields the relationship row that \<open>findFirst\<close> returned (or \<open>undefined\<close>), the final
  branch yields \<open>null\<close>, the mention found, or \<open>undefined\<close>. Callers only test the
  value for truthiness. A promise that has not been awaited is an object, whether it
  will be fulfilled with a value or rejected with an error.
\<close>

datatype jsval = JBool bool | JNull | JUndefined | JRelationship relationship_row
  | JMention uuid | JPromise "error + jsval"

fun truthy :: "jsval \<Rightarrow> bool" where
  "truthy (JBool b) = b"
| "truthy JNull = False"
| "truthy JUndefined = False"
| "truthy (JRelationship r) = True"
| "truthy (JMention u) = True"
| "truthy (JPromise p) = True"

text \<open>
  The condition of a query against the \<open>Relationships\<close> table, as the query builder
  receives it: a conjunction (\<open>and\<close>) of equalities (\<open>eq\<close>) between operands. An
  operand is a column of the queried table (the callback's \<open>relationship\<close>), the column
  \<open>Notes.authorId\<close> of the schema, or a value bound as a parameter.
\<close>

datatype sql_value = Sql_id uuid | Sql_bool bool

datatype relationship_column = Col_ownerId | Col_subjectId | Col_following

datatype operand = Relationship_column relationship_column | Notes_authorId
  | Param sql_value

fun column_value :: "relationship_row \<Rightarrow> relationship_column \<Rightarrow> sql_value" where
  "column_value r Col_ownerId = Sql_id (ownerId r)"
| "column_value r Col_subjectId = Sql_id (subjectId r)"
| "column_value r Col_following = Sql_bool (following r)"

text \<open>
  An operand has a value on a row of the queried table, except a column of a table
  that the query does not select from.
\<close>

fun operand_value :: "relationship_row \<Rightarrow> operand \<Rightarrow> sql_value option" where
  "operand_value r (Relationship_column c) = Some (column_value r c)"
| "operand_value r Notes_authorId = None"
| "operand_value r (Param v) = Some v"

fun in_scope :: "operand \<Rightarrow> bool" where
  "in_scope (Relationship_column c) = True"
| "in_scope Notes_authorId = False"
| "in_scope (Param v) = True"

text \<open>
  \<open>db.query.Relationships.findFirst\<close>: the query selects from \<open>Relationships\<close> alone. The
  database refuses a statement whose condition names a column of a table that is not
  in its \<open>FROM\<close> clause, whatever the rows are, and the call rejects; otherwise the
  result is the first row on which every equality holds (\<open>undefined\<close> when there is
  none).
\<close>

definition Relationships_findFirst ::
  "store \<Rightarrow> (operand \<times> operand) list \<Rightarrow> error + relationship_row option" where
  "Relationships_findFirst db wh =
     (if list_all (\<lambda>(a, b). in_scope a \<and> in_scope b) wh
      then Inr (find (\<lambda>r. list_all (\<lambda>(a, b). operand_value r a = operand_value r b) wh)
                  (Relationships db))
      else Inl (Error ''missing FROM-clause entry for table Notes''))"

text \<open>
  \<open>isViewableByUser\<close>. In the private branch the condition of the relationship query
  is \<open>and(eq(relationship.ownerId, user?.id), eq(relationship.subjectId,
  Notes.authorId), eq(relationship.following, true))\<close>: the second equality compares
  with the schema column \<open>Notes.authorId\<close>, not with the author of this note.
\<close>

definition isViewableByUser :: "store \<Rightarrow> Note \<Rightarrow> user_row option \<Rightarrow> error + jsval" where
  "isViewableByUser db this user =
     (if Some (authorId (status this)) = map_option user_id user then Inr (JBool True)
      else if visibility (status this) = Public then Inr (JBool True)
      else if visibility (status this) = Unlisted then Inr (JBool True)
      else if visibility (status this) = Private then
        (case user of
           None \<Rightarrow> Inr (JBool False)
         | Some u \<Rightarrow>
            (case Relationships_findFirst db
                    [(Relationship_column Col_ownerId, Param (Sql_id (user_id u))),
                     (Relationship_column Col_subjectId, Notes_authorId),
                     (Relationship_column Col_following, Param (Sql_bool True))] of
               Inl e \<Rightarrow> Inl e
             | Inr None \<Rightarrow> Inr JUndefined
             | Inr (Some r) \<Rightarrow> Inr (JRelationship r)))
      else
        (case user of
           None \<Rightarrow> Inr JNull
         | Some u \<Rightarrow>
            (case find (\<lambda>m. m = user_id u) (mentions this) of
               None \<Rightarrow> Inr JUndefined
             | Some m \<Rightarrow> Inr (JMention m))))"

text \<open>
  \<open>getAncestors\<close>: the \<open>while\<close> loop follows \<open>replyId\<close> one hop at a time and stops at
  a missing parent. Nothing bounds it, so on a cyclic reply chain it does not return;
  that is the value \<open>None\<close>. The filter's callback returns the promise of
  \<open>isViewableByUser\<close> without awaiting it.
\<close>

partial_function (option) getAncestors_loop :: "store \<Rightarrow> Note \<Rightarrow> Note list \<Rightarrow> Note list option" where
  "getAncestors_loop db currentStatus ancestors =
     (case replyId (status currentStatus) of
        None \<Rightarrow> Some ancestors
      | Some pid \<Rightarrow>
         (case Note_fromId db (Some pid) of
            None \<Rightarrow> Some ancestors
          | Some parent \<Rightarrow> getAncestors_loop db parent (ancestors @ [parent])))"

declare getAncestors_loop.simps [code]

definition getAncestors :: "store \<Rightarrow> Note \<Rightarrow> user_row option \<Rightarrow> Note list option" where
  "getAncestors db this fetcher =
     (case getAncestors_loop db this [] of
        None \<Rightarrow> None
      | Some ancestors \<Rightarrow>
          Some (rev (filter (\<lambda>ancestor. truthy (JPromise (isViewableByUser db ancestor fetcher)))
                       ancestors)))"

function getDescendants :: "store \<Rightarrow> Note \<Rightarrow> user_row option \<Rightarrow> nat \<Rightarrow> Note list" where
  "getDescendants db this fetcher depth =
     (let descendants =
        concat (map (\<lambda>child. child #
                       (if depth < 20 then getDescendants db child fetcher (depth + 1) else []))
                  (getReplyChildren db this))
      in filter (\<lambda>descendant. truthy (JPromise (isViewableByUser db descendant fetcher)))
           descendants)"
  by pat_completeness auto
termination
  by (relation "measure (\<lambda>(db, this, fetcher, depth). 21 - depth)") auto

declare getDescendants.simps [simp del]


text \<open>
  What "k levels below" means in the reply tree: level 1 is a direct reply, level
  \<open>k + 1\<close> is a reply to a stored note at level \<open>k\<close>.
\<close>

fun replies_below :: "store \<Rightarrow> uuid \<Rightarrow> nat \<Rightarrow> note_row \<Rightarrow> bool" where
  "replies_below db a 0 m = False"
| "replies_below db a (Suc 0) m = (replyId m = Some a)"
| "replies_below db a (Suc (Suc k)) m =
     (\<exists>p \<in> set (Notes db). replyId m = Some (note_id p) \<and> replies_below db a (Suc k) p)"

section \<open>Configuration and external collaborators\<close>

record config =
  base_url :: string
  blocked :: "string list"
  bridge_enabled :: bool
  bridge_token :: string
  allowed_ips :: "string list"

type_synonym content_format = "(string \<times> string) list"

text \<open>
  The federation payloads, with the fields the resolvers read. A missing string field
  and an empty one are both falsy in the source; \<open>p_author\<close> is the empty string when
  the author is missing.
\<close>

record user_payload =
  u_uri :: uri
  u_display_name :: "string option"
  u_public_key :: string
  u_emojis :: "string list"

record note_payload =
  p_type :: string
  p_uri :: uri
  p_author :: string
  p_content :: "content_format option"
  p_visibility :: visibility
  p_is_sensitive :: "bool option"
  p_subject :: "string option"
  p_mentions :: "uri list option"
  p_replies_to :: "uri option"
  p_quotes :: "uri option"
  p_emojis :: "string list"

record signed_request =
  sr_url :: string
  sr_method :: string
  sr_signature :: string
  sr_date :: string
  sr_body :: string

text \<open>
  What the engine calls but does not define: the regular expression \<open>idValidator\<close> (as
  the id its first match in a string denotes), \<open>URL.canParse\<close>, the remote servers
  (\<open>fetch\<close> followed by \<open>json()\<close>, and for actors by the schema validator; \<open>Inl\<close> when
  any of them throws), the origin of a URL, the emoji, HTML and sanitisation helpers,
  the IP matcher and the signature validator (\<open>fromStringKey\<close> may throw, and so may
  \<open>validate\<close>).
\<close>

record world =
  idValidator :: "string \<Rightarrow> uuid option"
  canParse :: "string \<Rightarrow> bool"
  fetch_user :: "uri \<Rightarrow> error + user_payload"
  fetch_note :: "uri \<Rightarrow> error + note_payload option"
  origin_of :: "uri \<Rightarrow> string"
  fetchEmoji :: "string \<Rightarrow> error + uuid"
  parseEmojis :: "string \<Rightarrow> uuid list"
  contentToHtml :: "content_format \<Rightarrow> user_row option list \<Rightarrow> error + string"
  sanitizedHtmlStrip :: "string \<Rightarrow> string"
  matches :: "string \<Rightarrow> string \<Rightarrow> bool"
  fromStringKey :: "string \<Rightarrow> error + (signed_request \<Rightarrow> error + bool)"

definition or_empty :: "string option \<Rightarrow> string" where
  "or_empty s = (case s of None \<Rightarrow> [] | Some t \<Rightarrow> t)"

definition truthy_str :: "string option \<Rightarrow> bool" where
  "truthy_str s = (case s of None \<Rightarrow> False | Some t \<Rightarrow> t \<noteq> [])"

section \<open>Actors\<close>

text \<open>
  Modelled from the spec: \<open>findFirstUser\<close> (entities/User) is not among the sources; as
  for notes, it is the query against the \<open>Users\<close> table that returns the first row
  satisfying the condition in the given order.
\<close>

definition findFirstUser :: "store \<Rightarrow> (user_row \<Rightarrow> bool) \<Rightarrow> user_row order_by \<Rightarrow> user_row option" where
  "findFirstUser db wh ob =
     (case ordered ob (filter wh (Users db)) of [] \<Rightarrow> None | u # _ \<Rightarrow> Some u)"

definition User_fromSql :: "store \<Rightarrow> (user_row \<Rightarrow> bool) \<Rightarrow> user_row option" where
  "User_fromSql db wh = findFirstUser db wh (Desc user_id)"

definition User_fromId :: "store \<Rightarrow> uuid option \<Rightarrow> user_row option" where
  "User_fromId db i =
     (case i of None \<Rightarrow> None | Some i' \<Rightarrow> User_fromSql db (\<lambda>u. user_id u = i'))"

definition isLocal :: "user_row \<Rightarrow> bool" where
  "isLocal u = (instanceId u = None)"

definition isRemote :: "user_row \<Rightarrow> bool" where
  "isRemote u = (\<not> isLocal u)"

text \<open>
  \<open>delete\<close> removes the row from \<open>Users\<close>. What the schema's foreign keys cascade to
  is the store's business and is left out.
\<close>

definition User_delete :: "store \<Rightarrow> user_row \<Rightarrow> store" where
  "User_delete db this = db\<lparr>Users := filter (\<lambda>u. user_id u \<noteq> user_id this) (Users db)\<rparr>"

text \<open>
  \<open>federateToFollowers\<close>: one delivery per remote user that owns a relationship to this
  actor with \<open>following\<close> set; the deliveries are fired and not awaited.
\<close>

definition federateToFollowers :: "store \<Rightarrow> user_row \<Rightarrow> store" where
  "federateToFollowers db this =
     (let followers = ordered (Desc user_id)
            (filter (\<lambda>u. (\<exists>r \<in> set (Relationships db).
                              subjectId r = user_id this \<and> ownerId r = user_id u \<and> following r)
                          \<and> instanceId u \<noteq> None) (Users db))
      in db\<lparr>outbox := outbox db @ map (\<lambda>f. Actor_to (user_id this) (user_id f)) followers\<rparr>)"

text \<open>
  \<open>update\<close>: \<open>set\<close> is the assignment to the columns, \<open>important\<close> says whether one of
  the columns that trigger federation is set to a truthy value. \<open>toLysand\<close> throws for
  a remote actor.
\<close>

definition User_update ::
  "store \<Rightarrow> user_row \<Rightarrow> (user_row \<Rightarrow> user_row) \<Rightarrow> bool \<Rightarrow> (error + user_row) \<times> store" where
  "User_update db this set_cols important =
     (case filter (\<lambda>u. user_id u = user_id this) (Users db) of
        [] \<Rightarrow> (Inl (TypeError ''undefined is not an object''), db)
      | r # _ \<Rightarrow>
         (let db1 = db\<lparr>Users := map (\<lambda>u. if user_id u = user_id this then set_cols u else u)
                                   (Users db)\<rparr>
          in case User_fromId db1 (Some (user_id (set_cols r))) of
               None \<Rightarrow> (Inl (Error ''User not found after update''), db1)
             | Some newUser \<Rightarrow>
                 if important then
                   (if isRemote newUser
                    then (Inl (Error ''Cannot convert remote user to Lysand format''), db1)
                    else (Inr newUser, federateToFollowers db1 newUser))
                 else (Inr newUser, db1)))"

text \<open>
  Modelled from the spec: \<open>addInstanceIfNotExists\<close> (entities/Instance) is not among the
  sources; "Instance: remote origin registry, created lazily on first contact with that
  origin". The registry is the list of origins, an instance's id is its origin.
\<close>

definition addInstanceIfNotExists :: "world \<Rightarrow> store \<Rightarrow> uri \<Rightarrow> string \<times> store" where
  "addInstanceIfNotExists w db u =
     (let host = origin_of w u
      in (host, if host \<in> set (Instances db) then db
                else db\<lparr>Instances := Instances db @ [host]\<rparr>))"

fun fetch_all_emojis :: "world \<Rightarrow> string list \<Rightarrow> error + uuid list" where
  "fetch_all_emojis w [] = Inr []"
| "fetch_all_emojis w (e # es) =
     (case fetchEmoji w e of
        Inl x \<Rightarrow> Inl x
      | Inr i \<Rightarrow> (case fetch_all_emojis w es of Inl x \<Rightarrow> Inl x | Inr is \<Rightarrow> Inr (i # is)))"

definition User_saveFromRemote :: "world \<Rightarrow> store \<Rightarrow> uri \<Rightarrow> (error + user_row option) \<times> store" where
  "User_saveFromRemote w db uri =
     (if \<not> canParse w uri then (Inl (Error (''Invalid URI to parse '' @ uri)), db)
      else
        let db1 = db\<lparr>fetched := fetched db @ [uri]\<rparr> in
        case fetch_user w uri of
          Inl e \<Rightarrow> (Inl e, db1)
        | Inr data \<Rightarrow>
           (case addInstanceIfNotExists w db1 (u_uri data) of (instance, db2) \<Rightarrow>
            (case fetch_all_emojis w (u_emojis data) of
               Inl e \<Rightarrow> (Inl e, db2)
             | Inr emojis \<Rightarrow>
                (case User_fromSql db2 (\<lambda>u. user_uri u = Some (u_uri data)) of
                   Some foundUser \<Rightarrow>
                    (case User_update db2 foundUser
                            (\<lambda>u. u\<lparr>displayName := (case u_display_name data of None \<Rightarrow> []
                                                      | Some n \<Rightarrow> n),
                                   publicKey := u_public_key data\<rparr>) True of
                       (Inl e, db3) \<Rightarrow> (Inl e, db3)
                     | (Inr updated, db3) \<Rightarrow>
                        (Inr (Some updated),
                         if emojis \<noteq> [] then
                           db3\<lparr>EmojiToUser :=
                                 filter (\<lambda>(e, u). u \<noteq> user_id foundUser) (EmojiToUser db3)
                                 @ map (\<lambda>e. (e, user_id foundUser)) emojis\<rparr>
                         else db3))
                 | None \<Rightarrow>
                    (let newUser = \<lparr>user_id = next_id db2, user_uri = Some (u_uri data),
                            instanceId = Some instance, isLocked = False,
                            publicKey = u_public_key data,
                            displayName = (case u_display_name data of None \<Rightarrow> []
                                           | Some n \<Rightarrow> n)\<rparr>;
                         db3 = db2\<lparr>Users := Users db2 @ [newUser],
                                   next_id := Suc (next_id db2)\<rparr>;
                         db4 = (if emojis \<noteq> [] then
                                  db3\<lparr>EmojiToUser := EmojiToUser db3
                                        @ map (\<lambda>e. (e, user_id newUser)) emojis\<rparr>
                                else db3)
                     in case User_fromId db4 (Some (user_id newUser)) of
                          None \<Rightarrow> (Inr None, db4)
                        | Some finalUser \<Rightarrow>
                            (Inr (Some finalUser),
                             db4\<lparr>search_index := search_index db4 @ [user_id finalUser]\<rparr>))))))"

definition User_resolve :: "config \<Rightarrow> world \<Rightarrow> store \<Rightarrow> uri \<Rightarrow> (error + user_row option) \<times> store" where
  "User_resolve cfg w db uri =
     (case User_fromSql db (\<lambda>u. user_uri u = Some uri) of
        Some foundUser \<Rightarrow> (Inr (Some foundUser), db)
      | None \<Rightarrow>
         if prefix (base_url cfg) uri then
           (case idValidator w uri of
              None \<Rightarrow> (Inl (Error (''URI '' @ uri @ '' is of a local user, but it could not be parsed'')), db)
            | Some uuid \<Rightarrow> (Inr (User_fromId db (Some uuid)), db))
         else User_saveFromRemote w db uri)"

section \<open>Notes\<close>

definition getAuthor :: "store \<Rightarrow> Note \<Rightarrow> user_row option" where
  "getAuthor db this = find (\<lambda>u. user_id u = authorId (status this)) (Users db)"

definition Note_insert :: "store \<Rightarrow> note_row \<Rightarrow> note_row \<times> store" where
  "Note_insert db vals =
     (let row = vals\<lparr>note_id := next_id db\<rparr>
      in (row, db\<lparr>Notes := Notes db @ [row], next_id := Suc (next_id db)\<rparr>))"

definition Note_delete :: "store \<Rightarrow> Note \<Rightarrow> store" where
  "Note_delete db this =
     db\<lparr>Notes := filter (\<lambda>r. note_id r \<noteq> note_id (status this)) (Notes db)\<rparr>"

text \<open>
  \<open>contentSource\<close>: the plain text, else the markdown, else the first entry of the
  content object (reading it throws when the object is empty), else the empty string.
\<close>

definition contentSource :: "content_format \<Rightarrow> error + string" where
  "contentSource c =
     (if truthy_str (map_of c ''text/plain'') then Inr (or_empty (map_of c ''text/plain''))
      else if truthy_str (map_of c ''text/markdown'')
        then Inr (or_empty (map_of c ''text/markdown''))
      else (case c of
              [] \<Rightarrow> Inl (TypeError ''undefined is not an object'')
            | (k, v) # _ \<Rightarrow> Inr v))"

text \<open>Keeping the first occurrence of each emoji, as the \<open>findIndex\<close> filter does.\<close>

definition fuse_emojis :: "uuid list \<Rightarrow> uuid list \<Rightarrow> uuid list" where
  "fuse_emojis emojis parsed = rev (remdups (rev (emojis @ parsed)))"

text \<open>
  Connecting the mentions: one insert per mention; reading \<open>mention.id\<close> of a mention
  that resolved to \<open>null\<close> throws, after the inserts before it.
\<close>

fun connect_mentions :: "store \<Rightarrow> uuid \<Rightarrow> user_row option list \<Rightarrow> (error + unit) \<times> store" where
  "connect_mentions db nid [] = (Inr (), db)"
| "connect_mentions db nid (None # ms) = (Inl (TypeError ''null is not an object''), db)"
| "connect_mentions db nid (Some m # ms) =
     connect_mentions (db\<lparr>NoteToMentions := NoteToMentions db @ [(nid, user_id m)]\<rparr>) nid ms"

fun notify_mentions :: "store \<Rightarrow> uuid \<Rightarrow> uuid \<Rightarrow> user_row option list \<Rightarrow> (error + unit) \<times> store" where
  "notify_mentions db aid nid [] = (Inr (), db)"
| "notify_mentions db aid nid (None # ms) = (Inl (TypeError ''null is not an object''), db)"
| "notify_mentions db aid nid (Some m # ms) =
     notify_mentions
       (if isLocal m then
          db\<lparr>Notifications := Notifications db @
               [\<lparr>accountId = aid, ntype = Mention_notification, notifiedId = user_id m,
                 noteId = Some nid\<rparr>]\<rparr>
        else db) aid nid ms"

text \<open>
  \<open>fromData\<close> creates the row and its associations. Attachments are rows of a table
  that no property here reads; re-parenting them is left out throughout.
\<close>

definition Note_fromData ::
  "world \<Rightarrow> store \<Rightarrow> user_row \<Rightarrow> content_format \<Rightarrow> visibility \<Rightarrow> bool \<Rightarrow> string \<Rightarrow> uuid list
     \<Rightarrow> string option \<Rightarrow> user_row option list \<Rightarrow> uuid option \<Rightarrow> uuid option
     \<Rightarrow> (error + Note option) \<times> store" where
  "Note_fromData w db author content' visibility' is_sensitive spoiler_text emojis uri
       mentions' replyId' quoteId =
     (case contentToHtml w content' mentions' of
        Inl e \<Rightarrow> (Inl e, db)
      | Inr htmlContent \<Rightarrow>
         (let foundEmojis = (if isLocal author
                             then fuse_emojis emojis (parseEmojis w htmlContent) else emojis)
          in case contentSource content' of
               Inl e \<Rightarrow> (Inl e, db)
             | Inr source \<Rightarrow>
                (case Note_insert db
                        \<lparr>note_id = 0, authorId = user_id author,
                         note_uri = (if truthy_str uri then uri else None),
                         content = htmlContent, visibility = visibility',
                         sensitive = is_sensitive,
                         spoilerText = sanitizedHtmlStrip w spoiler_text,
                         replyId = replyId', quotingId = quoteId\<rparr> of
                   (newNote, db1) \<Rightarrow>
                    (let db2 = db1\<lparr>EmojiToNote := EmojiToNote db1
                                     @ map (\<lambda>e. (e, note_id newNote)) foundEmojis\<rparr>
                     in case connect_mentions db2 (note_id newNote) mentions' of
                          (Inl e, db3) \<Rightarrow> (Inl e, db3)
                        | (Inr u, db3) \<Rightarrow>
                           (case notify_mentions db3 (user_id author) (note_id newNote)
                                   mentions' of
                              (Inl e, db4) \<Rightarrow> (Inl e, db4)
                            | (Inr u', db4) \<Rightarrow>
                                (Inr (Note_fromId db4 (Some (note_id newNote))), db4))))))"

text \<open>
  \<open>updateFromData\<close> rewrites the columns of the rows with this note's id (an
  \<open>undefined\<close> reply or quote target leaves the column as it is) and replaces the emoji
  and mention associations by delete-then-insert.
\<close>

definition Note_updateFromData ::
  "world \<Rightarrow> store \<Rightarrow> Note \<Rightarrow> content_format option \<Rightarrow> visibility \<Rightarrow> bool \<Rightarrow> string
     \<Rightarrow> uuid list \<Rightarrow> user_row option list \<Rightarrow> uuid option \<Rightarrow> uuid option
     \<Rightarrow> (error + Note option) \<times> store" where
  "Note_updateFromData w db this content' visibility' is_sensitive spoiler_text emojis
       mentions' replyId' quoteId =
     (case (case content' of None \<Rightarrow> Inr None
            | Some c \<Rightarrow> map_sum id Some (contentToHtml w c mentions')) of
        Inl e \<Rightarrow> (Inl e, db)
      | Inr htmlContent \<Rightarrow>
         (let foundEmojis =
                (case htmlContent of
                   Some h \<Rightarrow>
                     if (case getAuthor db this of None \<Rightarrow> False | Some a \<Rightarrow> isLocal a) \<and> h \<noteq> []
                     then fuse_emojis emojis (parseEmojis w h) else emojis
                 | None \<Rightarrow> emojis)
          in case (case content' of None \<Rightarrow> Inr None
                   | Some c \<Rightarrow> map_sum id Some (contentSource c)) of
               Inl e \<Rightarrow> (Inl e, db)
             | Inr source \<Rightarrow>
                (let nid = note_id (status this);
                     set_cols = (\<lambda>r. r\<lparr>content := (case htmlContent of None \<Rightarrow> content r
                                                     | Some h \<Rightarrow> h),
                                       visibility := visibility',
                                       sensitive := is_sensitive,
                                       spoilerText := spoiler_text,
                                       replyId := (case replyId' of None \<Rightarrow> replyId r
                                                   | Some i \<Rightarrow> Some i),
                                       quotingId := (case quoteId of None \<Rightarrow> quotingId r
                                                     | Some i \<Rightarrow> Some i)\<rparr>);
                     updated = filter (\<lambda>r. note_id r = nid) (Notes db);
                     db1 = db\<lparr>Notes := map (\<lambda>r. if note_id r = nid then set_cols r else r)
                                           (Notes db)\<rparr>;
                     db2 = db1\<lparr>EmojiToNote :=
                                 filter (\<lambda>(e, n). n \<noteq> nid) (EmojiToNote db1)
                                 @ map (\<lambda>e. (e, nid)) foundEmojis\<rparr>;
                     db3 = db2\<lparr>NoteToMentions :=
                                 filter (\<lambda>(n, u). n \<noteq> nid) (NoteToMentions db2)\<rparr>
                 in case connect_mentions db3 nid mentions' of
                      (Inl e, db4) \<Rightarrow> (Inl e, db4)
                    | (Inr u, db4) \<Rightarrow>
                       (case updated of
                          [] \<Rightarrow> (Inl (TypeError ''undefined is not an object''), db4)
                        | newNote # _ \<Rightarrow> (Inr (Note_fromId db4 (Some nid)), db4)))))"

text \<open>
  The mentions of a payload are resolved as actors: \<open>Promise.all\<close> over the promises
  that \<open>map\<close> collected, so every resolution is started, and one that fails does not
  stop the others: what they fetch and store is fetched and stored all the same. The
  resolutions are taken in the order of the list, each on the store the one before it
  left; the failure of the whole is the first failure in that order.
\<close>

fun resolve_mentions ::
  "config \<Rightarrow> world \<Rightarrow> store \<Rightarrow> uri list \<Rightarrow> (error + user_row option list) \<times> store" where
  "resolve_mentions cfg w db [] = (Inr [], db)"
| "resolve_mentions cfg w db (m # ms) =
     (case User_resolve cfg w db m of
        (r, db1) \<Rightarrow>
         (case resolve_mentions cfg w db1 ms of
            (rs, db2) \<Rightarrow>
              ((case r of
                  Inl e \<Rightarrow> Inl e
                | Inr u \<Rightarrow> (case rs of Inl e \<Rightarrow> Inl e | Inr us \<Rightarrow> Inr (u # us))), db2)))"

text \<open>
  The first part of \<open>saveFromRemote\<close>, up to the resolution of the author and the
  emojis: it looks for the stored row first, then fetches the payload when a URI is
  given. A failing emoji is logged and skipped.
\<close>

definition saveFromRemote_begin ::
  "config \<Rightarrow> world \<Rightarrow> store \<Rightarrow> uri option \<Rightarrow> note_payload option
     \<Rightarrow> (error + Note option \<times> note_payload \<times> user_row \<times> uuid list) \<times> store" where
  "saveFromRemote_begin cfg w db uri providedNote =
     (if \<not> truthy_str uri \<and> providedNote = None
      then (Inl (Error ''No URI or note provided''), db)
      else
        let foundStatus = Note_fromSql db
              (\<lambda>r. note_uri r = Some (case uri of Some u \<Rightarrow> u
                                       | None \<Rightarrow> (case providedNote of Some p \<Rightarrow> p_uri p
                                                   | None \<Rightarrow> []))) (Desc note_id);
            fetched' = (if truthy_str uri then
                          (if \<not> canParse w (or_empty uri)
                           then (Inl (Error (''Invalid URI to parse '' @ or_empty uri)), db)
                           else (fetch_note w (or_empty uri),
                                 db\<lparr>fetched := fetched db @ [or_empty uri]\<rparr>))
                        else (Inr providedNote, db))
        in case fetched' of
             (Inl e, db1) \<Rightarrow> (Inl e, db1)
           | (Inr None, db1) \<Rightarrow> (Inl (Error ''No note was able to be fetched''), db1)
           | (Inr (Some note), db1) \<Rightarrow>
               if p_type note \<noteq> ''Note'' then (Inl (Error ''Invalid object type''), db1)
               else if p_author note = [] then (Inl (Error ''Invalid object author''), db1)
               else
                 (case User_resolve cfg w db1 (p_author note) of
                    (Inl e, db2) \<Rightarrow> (Inl e, db2)
                  | (Inr None, db2) \<Rightarrow> (Inl (Error ''Invalid object author''), db2)
                  | (Inr (Some author), db2) \<Rightarrow>
                      (Inr (foundStatus, note, author,
                            List.map_filter
                              (\<lambda>e. case fetchEmoji w e of Inl x \<Rightarrow> None | Inr i \<Rightarrow> Some i)
                              (p_emojis note)), db2)))"

text \<open>The last part: update the stored row when there was one, create it otherwise.\<close>

definition saveFromRemote_end ::
  "world \<Rightarrow> store \<Rightarrow> Note option \<Rightarrow> note_payload \<Rightarrow> user_row \<Rightarrow> uuid list
     \<Rightarrow> user_row option list \<Rightarrow> uuid option \<Rightarrow> uuid option \<Rightarrow> (error + Note option) \<times> store" where
  "saveFromRemote_end w db foundStatus note author emojis mentions' replyId' quoteId =
     (let content' = (case p_content note of None \<Rightarrow> [(''text/plain'', [])] | Some c \<Rightarrow> c);
          is_sensitive = (case p_is_sensitive note of None \<Rightarrow> False | Some b \<Rightarrow> b);
          subject = (case p_subject note of None \<Rightarrow> [] | Some s \<Rightarrow> s)
      in case foundStatus of
           Some found \<Rightarrow>
             Note_updateFromData w db found (Some content') (p_visibility note) is_sensitive
               subject emojis mentions' replyId' quoteId
         | None \<Rightarrow>
            (case Note_fromData w db author content' (p_visibility note) is_sensitive subject
                    emojis (Some (p_uri note)) mentions' replyId' quoteId of
               (Inl e, db1) \<Rightarrow> (Inl e, db1)
             | (Inr None, db1) \<Rightarrow> (Inl (Error ''Failed to create status''), db1)
             | (Inr (Some createdNote), db1) \<Rightarrow> (Inr (Some createdNote), db1)))"

text \<open>
  \<open>Note.resolve\<close> and \<open>Note.saveFromRemote\<close> call each other through the reply and
  quote targets of the payload, and nothing in the source bounds that recursion. The
  first argument counts the calls still allowed; \<open>None\<close> is the computation that needs
  more than that (and, when no count is enough, the call that never returns).
\<close>

fun Note_resolve ::
  "config \<Rightarrow> world \<Rightarrow> nat \<Rightarrow> store \<Rightarrow> uri option \<Rightarrow> note_payload option
     \<Rightarrow> ((error + Note option) \<times> store) option"
and Note_saveFromRemote ::
  "config \<Rightarrow> world \<Rightarrow> nat \<Rightarrow> store \<Rightarrow> uri option \<Rightarrow> note_payload option
     \<Rightarrow> ((error + Note option) \<times> store) option"
where
  "Note_resolve cfg w 0 db uri providedNote = None"
| "Note_resolve cfg w (Suc n) db uri providedNote =
     (case (if truthy_str uri
            then Note_fromSql db (\<lambda>r. note_uri r = uri) (Desc note_id) else None) of
        Some foundNote \<Rightarrow> Some (Inr (Some foundNote), db)
      | None \<Rightarrow>
         if (case uri of None \<Rightarrow> False | Some u \<Rightarrow> prefix (base_url cfg) u) then
           (case idValidator w (or_empty uri) of
              None \<Rightarrow> Some (Inl (Error (''URI '' @ or_empty uri
                                @ '' is of a local note, but it could not be parsed'')), db)
            | Some uuid \<Rightarrow> Some (Inr (Note_fromId db (Some uuid)), db))
         else Note_saveFromRemote cfg w n db uri providedNote)"
| "Note_saveFromRemote cfg w 0 db uri providedNote = None"
| "Note_saveFromRemote cfg w (Suc n) db uri providedNote =
     (case saveFromRemote_begin cfg w db uri providedNote of
        (Inl e, db1) \<Rightarrow> Some (Inl e, db1)
      | (Inr (foundStatus, note, author, emojis), db1) \<Rightarrow>
         (case resolve_mentions cfg w db1
                 (case p_mentions note of None \<Rightarrow> [] | Some ms \<Rightarrow> ms) of
            (Inl e, db2) \<Rightarrow> Some (Inl e, db2)
          | (Inr mentions', db2) \<Rightarrow>
             (case (if truthy_str (p_replies_to note)
                    then map_option (\<lambda>(r, d). (map_sum id (map_option (note_id \<circ> status)) r, d))
                           (Note_resolve cfg w n db2 (p_replies_to note) None)
                    else Some (Inr None, db2)) of
                None \<Rightarrow> None
              | Some (Inl e, db3) \<Rightarrow> Some (Inl e, db3)
              | Some (Inr replyId', db3) \<Rightarrow>
                 (case (if truthy_str (p_quotes note)
                        then map_option (\<lambda>(r, d). (map_sum id (map_option (note_id \<circ> status)) r, d))
                               (Note_resolve cfg w n db3 (p_quotes note) None)
                        else Some (Inr None, db3)) of
                    None \<Rightarrow> None
                  | Some (Inl e, db4) \<Rightarrow> Some (Inl e, db4)
                  | Some (Inr quoteId, db4) \<Rightarrow>
                      Some (saveFromRemote_end w db4 foundStatus note author emojis
                              mentions' replyId' quoteId)))))"

declare Note_saveFromRemote.simps [simp del]

text \<open>
  \<open>getURI\<close> of a note is \<open>localObjectURI\<close> of its id, whatever the stored uri.

  Modelled from the spec: \<open>localObjectURI\<close> (entities/Federation) is not among the
  sources; a local object's uri is "derivable from base URL + id". The rendering of an
  id is a parameter, the path between the two is taken to be \<open>/objects/\<close>.
\<close>

definition localObjectURI :: "config \<Rightarrow> (uuid \<Rightarrow> string) \<Rightarrow> uuid \<Rightarrow> uri" where
  "localObjectURI cfg show_id i = base_url cfg @ ''/objects/'' @ show_id i"

text \<open>
  \<open>updateFromRemote\<close>: the guard reads \<open>!this.isRemote()\<close> on the promise that the
  asynchronous \<open>isRemote\<close> returns, so it never throws.
\<close>

definition Note_updateFromRemote ::
  "config \<Rightarrow> world \<Rightarrow> (uuid \<Rightarrow> string) \<Rightarrow> nat \<Rightarrow> store \<Rightarrow> Note
     \<Rightarrow> ((error + Note) \<times> store) option" where
  "Note_updateFromRemote cfg w show_id n db this =
     (if \<not> truthy (JPromise (Inr (JBool (case getAuthor db this of None \<Rightarrow> False
                                           | Some a \<Rightarrow> isRemote a))))
      then Some (Inl (Error ''Cannot refetch a local note (it is not remote)''), db)
      else
        (case Note_saveFromRemote cfg w n db
                (Some (localObjectURI cfg show_id (note_id (status this)))) None of
           None \<Rightarrow> None
         | Some (Inl e, db1) \<Rightarrow> Some (Inl e, db1)
         | Some (Inr None, db1) \<Rightarrow> Some (Inl (Error ''Note not found after update''), db1)
         | Some (Inr (Some updated), db1) \<Rightarrow> Some (Inr updated, db1)))"

section \<open>Inbox\<close>

subsection \<open>Strings\<close>

text \<open>\<open>String.prototype.includes\<close>: the argument occurs somewhere in the string.\<close>

fun str_includes :: "string \<Rightarrow> string \<Rightarrow> bool" where
  "str_includes [] t = (t = [])"
| "str_includes (c # s) t = (prefix t (c # s) \<or> str_includes s t)"

text \<open>
  \<open>String.prototype.split\<close> with a non-empty separator: \<open>cur\<close> is the segment read so
  far. With the empty separator the string is split into its characters.
\<close>

function split_from :: "string \<Rightarrow> string \<Rightarrow> string \<Rightarrow> string list" where
  "split_from sep cur [] = [cur]"
| "split_from sep cur (c # cs) =
     (if sep \<noteq> [] \<and> prefix sep (c # cs)
      then cur # split_from sep [] (drop (length sep) (c # cs))
      else split_from sep (cur @ [c]) cs)"
  by pat_completeness auto
termination
  by (relation "measure (\<lambda>(sep, cur, rest). length rest)") (auto simp: neq_Nil_conv)

definition js_split :: "string \<Rightarrow> string \<Rightarrow> string list" where
  "js_split sep s = (if sep = [] then map (\<lambda>c. [c]) s else split_from sep [] s)"

text \<open>Indexing an array: \<open>undefined\<close> out of range.\<close>

definition nth_opt :: "'a list \<Rightarrow> nat \<Rightarrow> 'a option" where
  "nth_opt xs i = (if i < length xs then Some (xs ! i) else None)"

subsection \<open>Requests and responses\<close>

datatype response = Response nat string

text \<open>
  The body, as the request parser hands it to one of the callbacks: one case per
  activity kind with the field the callback reads, a kind that no callback handles, and
  a body that fails validation (the parser throws a validation error).
\<close>

datatype activity = Note_activity note_payload | Follow_activity uri
  | FollowAccept_activity uri | FollowReject_activity uri | Undo_activity uri
  | User_activity uri | Patch_activity uri | Unhandled_activity | Invalid_activity string

text \<open>
  The validated parameters and headers of a request to \<open>/users/:uuid/inbox\<close>, its body,
  and the caller's address (\<open>context.env?.ip?.address\<close>, absent when the server does not
  provide it).
\<close>

record request =
  req_uuid :: uuid
  req_signature :: string
  req_date :: string
  req_authorization :: "string option"
  req_origin :: string
  req_body :: activity
  req_text :: string
  req_url :: string
  req_method :: string
  req_ip :: "string option"

subsection \<open>Gates before the dispatch\<close>

text \<open>
  The origin is defederated when \<open>find\<close> returns a truthy entry of the block-list: the
  first entry that contains the origin or is contained in it, provided it is not the
  empty string.
\<close>

definition origin_blocked :: "config \<Rightarrow> string \<Rightarrow> bool" where
  "origin_blocked cfg origin =
     truthy_str (find (\<lambda>blocked. str_includes blocked origin \<or> str_includes origin blocked)
                   (blocked cfg))"

fun allowed_ips_loop :: "world \<Rightarrow> string \<Rightarrow> string list \<Rightarrow> bool \<Rightarrow> bool" where
  "allowed_ips_loop w address [] checkSignature = checkSignature"
| "allowed_ips_loop w address (ip # ips) checkSignature =
     (if matches w ip address then False else allowed_ips_loop w address ips checkSignature)"

text \<open>
  The bridge gate yields either an early response or the value of \<open>checkSignature\<close>.
\<close>

definition bridge_check :: "config \<Rightarrow> world \<Rightarrow> request \<Rightarrow> response + bool" where
  "bridge_check cfg w req =
     (if bridge_enabled cfg then
        (let token = (case req_authorization req of
                        None \<Rightarrow> None
                      | Some a \<Rightarrow> nth_opt (js_split ''Bearer '' a) 1)
         in if truthy_str token then
              (if or_empty token \<noteq> bridge_token cfg then
                 Inl (Response 401 ''An invalid token was passed in the Authorization header. Please use the correct token, or remove the Authorization header.'')
               else if truthy_str (req_ip req) then
                 Inr (allowed_ips_loop w (or_empty (req_ip req)) (allowed_ips cfg)
                        (if length (allowed_ips cfg) > 0 then False else True))
               else Inl (Response 500 ''Request IP address is not available''))
            else Inr True)
      else Inr True)"

text \<open>
  Signature verification: \<open>Inr None\<close> lets the request through, \<open>Inr (Some r)\<close> answers
  it, \<open>Inl e\<close> is an exception that leaves the handler. Resolving the signer may fetch
  and store it.
\<close>

definition verify_signature ::
  "config \<Rightarrow> world \<Rightarrow> store \<Rightarrow> request \<Rightarrow> (error + response option) \<times> store" where
  "verify_signature cfg w db req =
     (case nth_opt (js_split ''keyId='' (req_signature req)) 1 of
        None \<Rightarrow> (Inl (TypeError ''undefined is not an object''), db)
      | Some s \<Rightarrow>
         (let keyId = filter (\<lambda>c. c \<noteq> CHR 0x22) (case js_split '','' s of [] \<Rightarrow> [] | x # _ \<Rightarrow> x)
          in case User_resolve cfg w db keyId of
               (Inl e, db1) \<Rightarrow> (Inl e, db1)
             | (Inr None, db1) \<Rightarrow> (Inr (Some (Response 400 ''Could not resolve keyId'')), db1)
             | (Inr (Some sender), db1) \<Rightarrow>
                (case fromStringKey w (publicKey sender) of
                   Inl e \<Rightarrow> (Inl e, db1)
                 | Inr validator \<Rightarrow>
                    (let reqUrl = (if prefix ''https:'' (base_url cfg)
                                      \<and> prefix ''http:'' (req_url req)
                                   then ''https:'' @ drop 5 (req_url req) else req_url req);
                         isValid = (case validator \<lparr>sr_url = reqUrl, sr_method = req_method req,
                                        sr_signature = req_signature req, sr_date = req_date req,
                                        sr_body = req_text req\<rparr> of
                                      Inl e \<Rightarrow> False
                                    | Inr b \<Rightarrow> b)
                     in if \<not> isValid then (Inr (Some (Response 400 ''Invalid signature'')), db1)
                        else (Inr None, db1)))))"

subsection \<open>The callbacks of the dispatcher\<close>

text \<open>
  Modelled from the spec: \<open>getRelationshipToOtherUser\<close> (entities/User) is not among the
  sources; "Relationship: unique per (owner, subject); independent boolean flags", and
  its callers use the result without a null check: the row owned by the first actor
  with the second as subject, created with all flags off when there is none.
\<close>

definition getRelationshipToOtherUser ::
  "store \<Rightarrow> user_row \<Rightarrow> user_row \<Rightarrow> relationship_row \<times> store" where
  "getRelationshipToOtherUser db user otherUser =
     (case find (\<lambda>r. ownerId r = user_id user \<and> subjectId r = user_id otherUser)
             (Relationships db) of
        Some r \<Rightarrow> (r, db)
      | None \<Rightarrow>
         (let r = \<lparr>rel_id = next_id db, ownerId = user_id user,
                    subjectId = user_id otherUser, following = False, requested = False,
                    showingReblogs = False, notifying = False\<rparr>
          in (r, db\<lparr>Relationships := Relationships db @ [r], next_id := Suc (next_id db)\<rparr>)))"

text \<open>
  Modelled from the spec: \<open>sendFollowAccept\<close> (entities/User) is not among the sources;
  "if target unlocked, trigger Outbound Federator's accept". The delivery to the
  follower is recorded in the outbox.
\<close>

definition sendFollowAccept :: "store \<Rightarrow> user_row \<Rightarrow> user_row \<Rightarrow> store" where
  "sendFollowAccept db follower followee =
     db\<lparr>outbox := outbox db @ [FollowAccept_to (user_id follower) (user_id followee)]\<rparr>"

definition inbox_note ::
  "config \<Rightarrow> world \<Rightarrow> nat \<Rightarrow> store \<Rightarrow> note_payload \<Rightarrow> ((error + response) \<times> store) option" where
  "inbox_note cfg w n db note =
     (case User_resolve cfg w db (p_author note) of
        (Inl e, db1) \<Rightarrow> Some (Inl e, db1)
      | (Inr None, db1) \<Rightarrow> Some (Inr (Response 404 ''Author not found''), db1)
      | (Inr (Some account), db1) \<Rightarrow>
         (case Note_resolve cfg w n db1 None (Some note) of
            None \<Rightarrow> None
          | Some (Inl e, db2) \<Rightarrow> Some (Inr (Response 500 ''Failed to add status''), db2)
          | Some (Inr None, db2) \<Rightarrow> Some (Inr (Response 500 ''Failed to add status''), db2)
          | Some (Inr (Some newStatus), db2) \<Rightarrow> Some (Inr (Response 201 ''Note created''), db2)))"

definition inbox_follow ::
  "config \<Rightarrow> world \<Rightarrow> store \<Rightarrow> user_row \<Rightarrow> uri \<Rightarrow> (error + response) \<times> store" where
  "inbox_follow cfg w db user author =
     (case User_resolve cfg w db author of
        (Inl e, db1) \<Rightarrow> (Inl e, db1)
      | (Inr None, db1) \<Rightarrow> (Inr (Response 400 ''Author not found''), db1)
      | (Inr (Some account), db1) \<Rightarrow>
         (case getRelationshipToOtherUser db1 account user of
            (foundRelationship, db2) \<Rightarrow>
              if following foundRelationship then (Inr (Response 200 ''Already following''), db2)
              else
                (let db3 = db2\<lparr>Relationships :=
                              map (\<lambda>r. if rel_id r = rel_id foundRelationship
                                        then r\<lparr>following := \<not> isLocked user,
                                               requested := isLocked user,
                                               showingReblogs := True, notifying := True\<rparr>
                                        else r) (Relationships db2)\<rparr>;
                     db4 = db3\<lparr>Notifications := Notifications db3 @
                              [\<lparr>accountId = user_id account,
                                ntype = (if isLocked user then Follow_request_notification
                                         else Follow_notification),
                                notifiedId = user_id user, noteId = None\<rparr>]\<rparr>;
                     db5 = (if \<not> isLocked user then sendFollowAccept db4 account user else db4)
                 in (Inr (Response 200 ''Follow request sent''), db5))))"

definition inbox_followAccept ::
  "config \<Rightarrow> world \<Rightarrow> store \<Rightarrow> user_row \<Rightarrow> uri \<Rightarrow> (error + response) \<times> store" where
  "inbox_followAccept cfg w db user author =
     (case User_resolve cfg w db author of
        (Inl e, db1) \<Rightarrow> (Inl e, db1)
      | (Inr None, db1) \<Rightarrow> (Inr (Response 400 ''Author not found''), db1)
      | (Inr (Some account), db1) \<Rightarrow>
         (case getRelationshipToOtherUser db1 user account of
            (foundRelationship, db2) \<Rightarrow>
              if \<not> requested foundRelationship
              then (Inr (Response 200 ''There is no follow request to accept''), db2)
              else
                (Inr (Response 200 ''Follow request accepted''),
                 db2\<lparr>Relationships :=
                       map (\<lambda>r. if rel_id r = rel_id foundRelationship
                                 then r\<lparr>following := True, requested := False\<rparr> else r)
                         (Relationships db2)\<rparr>)))"

definition inbox_followReject ::
  "config \<Rightarrow> world \<Rightarrow> store \<Rightarrow> user_row \<Rightarrow> uri \<Rightarrow> (error + response) \<times> store" where
  "inbox_followReject cfg w db user author =
     (case User_resolve cfg w db author of
        (Inl e, db1) \<Rightarrow> (Inl e, db1)
      | (Inr None, db1) \<Rightarrow> (Inr (Response 400 ''Author not found''), db1)
      | (Inr (Some account), db1) \<Rightarrow>
         (case getRelationshipToOtherUser db1 user account of
            (foundRelationship, db2) \<Rightarrow>
              if \<not> requested foundRelationship
              then (Inr (Response 200 ''There is no follow request to reject''), db2)
              else
                (Inr (Response 200 ''Follow request rejected''),
                 db2\<lparr>Relationships :=
                       map (\<lambda>r. if rel_id r = rel_id foundRelationship
                                 then r\<lparr>requested := False, following := False\<rparr> else r)
                         (Relationships db2)\<rparr>)))"

text \<open>
  The undo callback calls \<open>Note.fromSql(eq(Notes.uri, toDelete), eq(Notes.authorId,
  user.id))\<close>: the second argument of \<open>fromSql\<close> is the ordering, so the author condition
  orders the rows (false before true) and does not select them.
\<close>

definition inbox_undo ::
  "config \<Rightarrow> world \<Rightarrow> store \<Rightarrow> user_row \<Rightarrow> uri \<Rightarrow> (error + response) \<times> store" where
  "inbox_undo cfg w db user toDelete =
     (case Note_fromSql db (\<lambda>r. note_uri r = Some toDelete)
             (Asc (\<lambda>r. if authorId r = user_id user then 1 else 0)) of
        Some note \<Rightarrow> (Inr (Response 200 ''Note deleted''), Note_delete db note)
      | None \<Rightarrow>
         (case User_resolve cfg w db toDelete of
            (Inl e, db1) \<Rightarrow> (Inl e, db1)
          | (Inr (Some otherUser), db1) \<Rightarrow>
              if user_id otherUser = user_id user
              then (Inr (Response 200 ''Account deleted''), User_delete db1 user)
              else (Inr (Response 400 ''Cannot delete other users than self''), db1)
          | (Inr None, db1) \<Rightarrow>
              (Inr (Response 400 (''Deletion of object '' @ toDelete @ '' not implemented'')),
               db1)))"

definition inbox_user :: "world \<Rightarrow> store \<Rightarrow> uri \<Rightarrow> (error + response) \<times> store" where
  "inbox_user w db uri =
     (case User_saveFromRemote w db uri of
        (Inl e, db1) \<Rightarrow> (Inl e, db1)
      | (Inr None, db1) \<Rightarrow> (Inr (Response 500 ''Failed to update user''), db1)
      | (Inr (Some updatedAccount), db1) \<Rightarrow> (Inr (Response 200 ''User refreshed''), db1))"

definition inbox_patch ::
  "config \<Rightarrow> world \<Rightarrow> (uuid \<Rightarrow> string) \<Rightarrow> nat \<Rightarrow> store \<Rightarrow> user_row \<Rightarrow> uri
     \<Rightarrow> ((error + response) \<times> store) option" where
  "inbox_patch cfg w show_id n db user toPatch =
     (case Note_fromSql db (\<lambda>r. note_uri r = Some toPatch)
             (Asc (\<lambda>r. if authorId r = user_id user then 1 else 0)) of
        None \<Rightarrow> Some (Inr (Response 404 ''Note not found''), db)
      | Some note \<Rightarrow>
         (case Note_updateFromRemote cfg w show_id n db note of
            None \<Rightarrow> None
          | Some (Inl e, db1) \<Rightarrow> Some (Inl e, db1)
          | Some (Inr updated, db1) \<Rightarrow> Some (Inr (Response 200 ''Note updated''), db1)))"

text \<open>
  \<open>parseBody\<close> runs the callback of the body's kind; it returns nothing for a kind
  without callback and throws for a body that fails validation.
\<close>

fun parseBody ::
  "config \<Rightarrow> world \<Rightarrow> (uuid \<Rightarrow> string) \<Rightarrow> nat \<Rightarrow> store \<Rightarrow> user_row \<Rightarrow> activity
     \<Rightarrow> ((error + response option) \<times> store) option" where
  "parseBody cfg w show_id n db user (Note_activity note) =
     map_option (map_prod (map_sum id Some) id) (inbox_note cfg w n db note)"
| "parseBody cfg w show_id n db user (Follow_activity author) =
     Some (map_prod (map_sum id Some) id (inbox_follow cfg w db user author))"
| "parseBody cfg w show_id n db user (FollowAccept_activity author) =
     Some (map_prod (map_sum id Some) id (inbox_followAccept cfg w db user author))"
| "parseBody cfg w show_id n db user (FollowReject_activity author) =
     Some (map_prod (map_sum id Some) id (inbox_followReject cfg w db user author))"
| "parseBody cfg w show_id n db user (Undo_activity object) =
     Some (map_prod (map_sum id Some) id (inbox_undo cfg w db user object))"
| "parseBody cfg w show_id n db user (User_activity uri) =
     Some (map_prod (map_sum id Some) id (inbox_user w db uri))"
| "parseBody cfg w show_id n db user (Patch_activity patched_id) =
     map_option (map_prod (map_sum id Some) id) (inbox_patch cfg w show_id n db user patched_id)"
| "parseBody cfg w show_id n db user Unhandled_activity = Some (Inr None, db)"
| "parseBody cfg w show_id n db user (Invalid_activity msg) =
     Some (Inl (ValidationError msg), db)"

text \<open>What the handler's \<open>catch\<close> makes of an exception of the dispatch.\<close>

fun caught :: "error \<Rightarrow> response" where
  "caught (ValidationError msg) = Response 400 msg"
| "caught e = Response 500 ''Failed to process request''"

subsection \<open>The handler\<close>

text \<open>
  The handler of \<open>POST /users/:uuid/inbox\<close>. The result is the response and the store
  after the request; \<open>Inl\<close> is an exception thrown outside the handler's \<open>try\<close>.
\<close>

definition inbox ::
  "config \<Rightarrow> world \<Rightarrow> (uuid \<Rightarrow> string) \<Rightarrow> nat \<Rightarrow> store \<Rightarrow> request
     \<Rightarrow> ((error + response) \<times> store) option" where
  "inbox cfg w show_id n db req =
     (if origin_blocked cfg (req_origin req) then Some (Inr (Response 201 []), db)
      else
        (case User_fromId db (Some (req_uuid req)) of
           None \<Rightarrow> Some (Inr (Response 404 ''User not found''), db)
         | Some user \<Rightarrow>
            (case bridge_check cfg w req of
               Inl r \<Rightarrow> Some (Inr r, db)
             | Inr checkSignature \<Rightarrow>
                (case (if checkSignature then verify_signature cfg w db req
                       else (Inr None, db)) of
                   (Inl e, db1) \<Rightarrow> Some (Inl e, db1)
                 | (Inr (Some r), db1) \<Rightarrow> Some (Inr r, db1)
                 | (Inr None, db1) \<Rightarrow>
                    (case parseBody cfg w show_id n db1 user (req_body req) of
                       None \<Rightarrow> None
                     | Some (Inl e, db2) \<Rightarrow> Some (Inr (caught e), db2)
                     | Some (Inr (Some result), db2) \<Rightarrow> Some (Inr result, db2)
                     | Some (Inr None, db2) \<Rightarrow>
                         Some (Inr (Response 400 ''Object has not been implemented''), db2))))))"

section \<open>Vocabulary of the resolver's properties\<close>

text \<open>
  The uris of the stored notes in table order, whether a uri is stored, and the rows
  stored under a uri.
\<close>

definition note_uris :: "store \<Rightarrow> uri option list" where
  "note_uris db = map note_uri (Notes db)"

definition stored :: "store \<Rightarrow> uri \<Rightarrow> bool" where
  "stored db u = (Some u \<in> set (note_uris db))"

definition rows_with_uri :: "store \<Rightarrow> uri \<Rightarrow> note_row list" where
  "rows_with_uri db u = filter (\<lambda>r. note_uri r = Some u) (Notes db)"

text \<open>
  A remote is consistent when the note it serves at a URI carries that URI; a payload
  is the served one when the remote serves it at the URI it carries.
\<close>

definition consistent :: "world \<Rightarrow> bool" where
  "consistent w = (\<forall>u p. fetch_note w u = Inr (Some p) \<longrightarrow> p_uri p = u)"

definition served :: "world \<Rightarrow> note_payload \<Rightarrow> bool" where
  "served w p = (fetch_note w (p_uri p) = Inr (Some p))"

text \<open>A URI names a remote note when it is not empty and does not start with the base URL.\<close>

definition remote_uri :: "config \<Rightarrow> uri \<Rightarrow> bool" where
  "remote_uri cfg u = (u \<noteq> [] \<and> \<not> prefix (base_url cfg) u)"

text \<open>
  Resolving the reply or quote target of a payload, as \<open>saveFromRemote\<close> does it: the
  id of the resolved note, nothing for a missing target.
\<close>

definition resolve_target ::
  "config \<Rightarrow> world \<Rightarrow> nat \<Rightarrow> store \<Rightarrow> uri option \<Rightarrow> ((error + uuid option) \<times> store) option" where
  "resolve_target cfg w n db t =
     (if truthy_str t
      then map_option (\<lambda>(r, d). (map_sum id (map_option (note_id \<circ> status)) r, d))
             (Note_resolve cfg w n db t None)
      else Some (Inr None, db))"

text \<open>
  The uri under which \<open>saveFromRemote\<close> looks for the stored row.
\<close>

definition lookup_key :: "uri option \<Rightarrow> note_payload option \<Rightarrow> uri" where
  "lookup_key uri providedNote =
     (case uri of Some u \<Rightarrow> u
      | None \<Rightarrow> (case providedNote of Some p \<Rightarrow> p_uri p | None \<Rightarrow> []))"

text \<open>
  \<open>saveFromRemote\<close> up to the call of \<open>updateFromData\<close> or \<open>fromData\<close>: everything that
  is resolved before the row is written.
\<close>

definition saveFromRemote_deps ::
  "config \<Rightarrow> world \<Rightarrow> nat \<Rightarrow> store \<Rightarrow> uri option \<Rightarrow> note_payload option
     \<Rightarrow> ((error + Note option \<times> note_payload \<times> user_row \<times> uuid list \<times> user_row option list
                  \<times> uuid option \<times> uuid option) \<times> store) option" where
  "saveFromRemote_deps cfg w n db uri providedNote =
     (case saveFromRemote_begin cfg w db uri providedNote of
        (Inl e, db1) \<Rightarrow> Some (Inl e, db1)
      | (Inr (foundStatus, note, author, emojis), db1) \<Rightarrow>
         (case resolve_mentions cfg w db1
                 (case p_mentions note of None \<Rightarrow> [] | Some ms \<Rightarrow> ms) of
            (Inl e, db2) \<Rightarrow> Some (Inl e, db2)
          | (Inr mentions', db2) \<Rightarrow>
             (case resolve_target cfg w n db2 (p_replies_to note) of
                None \<Rightarrow> None
              | Some (Inl e, db3) \<Rightarrow> Some (Inl e, db3)
              | Some (Inr replyId', db3) \<Rightarrow>
                 (case resolve_target cfg w n db3 (p_quotes note) of
                    None \<Rightarrow> None
                  | Some (Inl e, db4) \<Rightarrow> Some (Inl e, db4)
                  | Some (Inr quoteId, db4) \<Rightarrow>
                      Some (Inr (foundStatus, note, author, emojis, mentions', replyId',
                                 quoteId), db4)))))"

text \<open>
  A call of the resolver is well formed when its URI, if given, is not the empty
  string, and its payload, if it is resolved without a URI, is the served one.
\<close>

definition wf_call :: "world \<Rightarrow> uri option \<Rightarrow> note_payload option \<Rightarrow> bool" where
  "wf_call w uri providedNote =
     (uri \<noteq> Some [] \<and>
      (uri = None \<longrightarrow> (case providedNote of None \<Rightarrow> True | Some p \<Rightarrow> served w p)))"

text \<open>
  One store extends another when its notes are the other's, possibly updated under
  their uris, followed by rows whose uris were not stored before.
\<close>

definition extends :: "store \<Rightarrow> store \<Rightarrow> bool" where
  "extends db db' =
     (\<exists>new. note_uris db' = note_uris db @ new \<and> (\<forall>k. Some k \<in> set new \<longrightarrow> \<not> stored db k))"

text \<open>
  The note stored under a uri is closed in a store when the remote reply and quote
  targets of the payload served at that uri are stored.
\<close>

definition closed :: "config \<Rightarrow> world \<Rightarrow> store \<Rightarrow> uri \<Rightarrow> bool" where
  "closed cfg w db x =
     (\<forall>p t. fetch_note w x = Inr (Some p) \<longrightarrow> (p_replies_to p = Some t \<or> p_quotes p = Some t)
        \<longrightarrow> remote_uri cfg t \<longrightarrow> stored db t)"

text \<open>
  One step of the dependency resolution: the notes are left as they are, or a truthy
  target was resolved with \<open>n\<close> calls allowed.
\<close>

definition target_step :: "config \<Rightarrow> world \<Rightarrow> nat \<Rightarrow> store \<Rightarrow> store \<Rightarrow> bool" where
  "target_step cfg w n db db' =
     (Notes db' = Notes db
      \<or> (\<exists>t r. t \<noteq> [] \<and> Note_resolve cfg w n db (Some t) None = Some (r, db')))"

text \<open>Every note that one store holds and the other did not is closed in it.\<close>

definition new_closed :: "config \<Rightarrow> world \<Rightarrow> store \<Rightarrow> store \<Rightarrow> bool" where
  "new_closed cfg w db db' = (\<forall>x. stored db' x \<longrightarrow> \<not> stored db x \<longrightarrow> closed cfg w db' x)"

text \<open>
  The notes of one store are still in the other, at their places and under their ids
  and uris.
\<close>

definition note_keys :: "store \<Rightarrow> (uuid \<times> uri option) list" where
  "note_keys db = map (\<lambda>r. (note_id r, note_uri r)) (Notes db)"

definition keeps_notes :: "store \<Rightarrow> store \<Rightarrow> bool" where
  "keeps_notes db db' = prefix (note_keys db) (note_keys db')"

section \<open>Example stores\<close>

subsection \<open>Threads\<close>

definition empty_store :: store where
  "empty_store = \<lparr>Users = [], Notes = [], Relationships = [], Notifications = [],
     NoteToMentions = [], EmojiToNote = [], EmojiToUser = [], Instances = [], next_id = 0,
     fetched = [], outbox = [], search_index = []\<rparr>"

text \<open>A linear reply chain: note \<open>k\<close> replies to note \<open>k - 1\<close>, note 0 is the root.\<close>

definition chain_note :: "visibility \<Rightarrow> nat \<Rightarrow> note_row" where
  "chain_note vis k = \<lparr>note_id = k, authorId = 0, note_uri = None, content = [],
     visibility = vis, sensitive = False, spoilerText = [],
     replyId = (if k = 0 then None else Some (k - 1)), quotingId = None\<rparr>"

definition chain_store :: "visibility \<Rightarrow> nat \<Rightarrow> store" where
  "chain_store vis n = empty_store\<lparr>Notes := map (chain_note vis) [0..<Suc n]\<rparr>"

definition chain_Note :: "visibility \<Rightarrow> nat \<Rightarrow> Note" where
  "chain_Note vis k = \<lparr>status = chain_note vis k, mentions = []\<rparr>"

text \<open>User 7 follows user 0, the author of the notes of the chains.\<close>

definition follower :: user_row where
  "follower = \<lparr>user_id = 7, user_uri = None, instanceId = None, isLocked = False,
     publicKey = [], displayName = ''vera''\<rparr>"

definition follower_store :: store where
  "follower_store = (chain_store Private 0)\<lparr>Users := [follower],
     Relationships := [\<lparr>rel_id = 1, ownerId = 7, subjectId = 0, following = True,
        requested = False, showingReblogs = True, notifying = True\<rparr>]\<rparr>"

subsection \<open>A server, its neighbours and some requests\<close>

text \<open>
  The server \<open>https://social.example\<close> with one local, unlocked actor (id 1) and two
  remote actors it already knows (ids 2 and 3). The bridge is enabled for the single
  address \<open>10.0.0.1\<close>; \<open>evil.example\<close> is defederated.
\<close>

definition example_config :: config where
  "example_config = \<lparr>base_url = ''https://social.example'', blocked = [''evil.example''],
     bridge_enabled = True, bridge_token = ''secret'', allowed_ips = [''10.0.0.1'']\<rparr>"

text \<open>
  A world in which nothing can be fetched, the IP matcher compares single addresses,
  local ids are not recognised and every signature is invalid.
\<close>

definition example_world :: world where
  "example_world = \<lparr>idValidator = (\<lambda>s. None), canParse = (\<lambda>s. True),
     fetch_user = (\<lambda>u. Inl (Error ''unreachable'')),
     fetch_note = (\<lambda>u. Inl (Error ''unreachable'')),
     origin_of = (\<lambda>u. u), fetchEmoji = (\<lambda>e. Inl (Error ''no emoji'')),
     parseEmojis = (\<lambda>h. []),
     contentToHtml = (\<lambda>c ms. Inr (case c of [] \<Rightarrow> [] | (k, v) # _ \<Rightarrow> v)),
     sanitizedHtmlStrip = (\<lambda>s. s), matches = (\<lambda>ip address. ip = address),
     fromStringKey = (\<lambda>k. Inr (\<lambda>r. Inr False))\<rparr>"

definition show_id :: "uuid \<Rightarrow> string" where
  "show_id i = replicate i CHR ''i''"

definition local_user :: user_row where
  "local_user = \<lparr>user_id = 1, user_uri = None, instanceId = None, isLocked = False,
     publicKey = ''key1'', displayName = ''tess''\<rparr>"

definition remote_alice :: user_row where
  "remote_alice = \<lparr>user_id = 2, user_uri = Some ''https://remote.example/users/alice'',
     instanceId = Some ''remote.example'', isLocked = False, publicKey = ''key2'',
     displayName = ''alice''\<rparr>"

definition remote_bob :: user_row where
  "remote_bob = \<lparr>user_id = 3, user_uri = Some ''https://remote.example/users/bob'',
     instanceId = Some ''remote.example'', isLocked = False, publicKey = ''key3'',
     displayName = ''bob''\<rparr>"

definition example_store :: store where
  "example_store = empty_store\<lparr>Users := [local_user, remote_alice, remote_bob], next_id := 10\<rparr>"

text \<open>
  A Follow from alice to the local actor, sent with the bridge token from an address
  outside the allow-list and with a \<open>Signature\<close> header that carries no key.
\<close>

definition bridge_request :: request where
  "bridge_request = \<lparr>req_uuid = 1, req_signature = ''none'', req_date = ''today'',
     req_authorization = Some ''Bearer secret'', req_origin = ''https://remote.example'',
     req_body = Follow_activity ''https://remote.example/users/alice'', req_text = [],
     req_url = ''https://social.example/users/1/inbox'', req_method = ''POST'',
     req_ip = Some ''203.0.113.9''\<rparr>"

text \<open>
  The same server with the bridge switched off, a world whose signature validator
  accepts every request, and a store in which bob (id 3) has a note of his own.
\<close>

definition trusting_world :: world where
  "trusting_world = example_world\<lparr>fromStringKey := (\<lambda>k. Inr (\<lambda>r. Inr True))\<rparr>"

definition bob_note :: note_row where
  "bob_note = \<lparr>note_id = 20, authorId = 3, note_uri = Some ''https://remote.example/notes/1'',
     content = ''hello'', visibility = Public, sensitive = False, spoilerText = [],
     replyId = None, quotingId = None\<rparr>"

definition store_with_note :: store where
  "store_with_note = example_store\<lparr>Notes := [bob_note], next_id := 21\<rparr>"

text \<open>
  An Undo sent to the inbox of the local actor (id 1), signed by alice, whose object is
  the uri of bob's note.
\<close>

definition undo_request :: request where
  "undo_request = \<lparr>req_uuid = 1,
     req_signature = ''keyId=https://remote.example/users/alice,algorithm=ed25519'',
     req_date = ''today'', req_authorization = None, req_origin = ''https://remote.example'',
     req_body = Undo_activity ''https://remote.example/notes/1'', req_text = [],
     req_url = ''https://social.example/users/1/inbox'', req_method = ''POST'',
     req_ip = None\<rparr>"

text \<open>
  The block-list with an empty string in front of \<open>evil.example\<close>, and a Follow from
  alice to the local actor, signed by alice, that arrives with the origin
  \<open>https://evil.example\<close>.
\<close>

definition lenient_config :: config where
  "lenient_config = example_config\<lparr>blocked := ['''', ''evil.example''],
     bridge_enabled := False\<rparr>"

definition follow_from_evil :: request where
  "follow_from_evil = \<lparr>req_uuid = 1,
     req_signature = ''keyId=https://remote.example/users/alice,algorithm=ed25519'',
     req_date = ''today'', req_authorization = None, req_origin = ''https://evil.example'',
     req_body = Follow_activity ''https://remote.example/users/alice'', req_text = [],
     req_url = ''https://social.example/users/1/inbox'', req_method = ''POST'',
     req_ip = None\<rparr>"

subsection \<open>An actor behind a second URL\<close>

text \<open>
  The origin of a URL: what comes before the path, in lower case.
\<close>

definition to_lower :: "char \<Rightarrow> char" where
  "to_lower c = (if 65 \<le> (of_char c :: nat) \<and> (of_char c :: nat) \<le> 90
                 then char_of (of_char c + (32 :: nat)) else c)"

fun before_path :: "nat \<Rightarrow> string \<Rightarrow> string" where
  "before_path slashes [] = []"
| "before_path slashes (c # cs) =
     (if c = CHR ''/'' then (if slashes = 2 then [] else c # before_path (Suc slashes) cs)
      else c # before_path slashes cs)"

definition url_origin :: "uri \<Rightarrow> string" where
  "url_origin u = map to_lower (before_path 0 u)"

text \<open>
  The remote actor carol, not known to the server yet. Her document carries the uri
  \<open>https://remote.example/users/carol\<close>; the remote serves it there and also at
  \<open>https://remote.example/@carol\<close>. Signatures are accepted.
\<close>

definition carol_document :: user_payload where
  "carol_document = \<lparr>u_uri = ''https://remote.example/users/carol'',
     u_display_name = Some ''carol'', u_public_key = ''key4'', u_emojis = []\<rparr>"

definition alias_world :: world where
  "alias_world = trusting_world\<lparr>origin_of := url_origin, fetch_user :=
     (\<lambda>u. if u = ''https://remote.example/users/carol'' \<or> u = ''https://remote.example/@carol''
          then Inr carol_document else Inl (Error ''unreachable''))\<rparr>"

text \<open>
  A Follow from carol to the local actor that names her by the second URL: once sent
  over the bridge, with the bridge token and from the allowed address, and once signed
  with her key.
\<close>

definition bridged_follow :: request where
  "bridged_follow = bridge_request\<lparr>req_ip := Some ''10.0.0.1'',
     req_body := Follow_activity ''https://remote.example/@carol''\<rparr>"

definition signed_follow :: request where
  "signed_follow = \<lparr>req_uuid = 1,
     req_signature = ''keyId=https://remote.example/@carol,algorithm=ed25519'',
     req_date = ''today'', req_authorization = None, req_origin = ''https://remote.example'',
     req_body = Follow_activity ''https://remote.example/@carol'', req_text = [],
     req_url = ''https://social.example/users/1/inbox'', req_method = ''POST'',
     req_ip = None\<rparr>"

text \<open>The store a call leaves behind (the empty store when it does not return).\<close>

definition store_after :: "('a \<times> store) option \<Rightarrow> store" where
  "store_after r = (case r of None \<Rightarrow> empty_store | Some (x, db) \<Rightarrow> db)"

definition bridged_once :: store where
  "bridged_once = store_after (inbox example_config alias_world show_id 0 example_store
     bridged_follow)"

subsection \<open>Local URIs\<close>




subsection \<open>A remote thread\<close>

text \<open>
  The remote serves two notes: the first by alice, the second by bob in reply to the
  first. In the second world bob has edited his note and made it private.
\<close>

definition root_payload :: note_payload where
  "root_payload = \<lparr>p_type = ''Note'', p_uri = ''https://remote.example/notes/1'',
     p_author = ''https://remote.example/users/alice'',
     p_content = Some [(''text/plain'', ''first'')], p_visibility = Public,
     p_is_sensitive = None, p_subject = None, p_mentions = None, p_replies_to = None,
     p_quotes = None, p_emojis = []\<rparr>"

definition reply_payload :: note_payload where
  "reply_payload = \<lparr>p_type = ''Note'', p_uri = ''https://remote.example/notes/2'',
     p_author = ''https://remote.example/users/bob'',
     p_content = Some [(''text/plain'', ''second'')], p_visibility = Public,
     p_is_sensitive = None, p_subject = None, p_mentions = None,
     p_replies_to = Some ''https://remote.example/notes/1'', p_quotes = None,
     p_emojis = []\<rparr>"

definition edited_payload :: note_payload where
  "edited_payload = reply_payload\<lparr>p_content := Some [(''text/plain'', ''edited'')],
     p_visibility := Private\<rparr>"

definition serving :: "note_payload \<Rightarrow> note_payload \<Rightarrow> uri \<Rightarrow> error + note_payload option" where
  "serving a b u =
     (if u = p_uri a then Inr (Some a) else if u = p_uri b then Inr (Some b)
      else Inl (Error ''unreachable''))"

definition fed_world :: world where
  "fed_world = example_world\<lparr>fetch_note := serving root_payload reply_payload\<rparr>"

definition edited_world :: world where
  "edited_world = example_world\<lparr>fetch_note := serving root_payload edited_payload\<rparr>"

text \<open>The store after bob's note was resolved by its URI, and after it was delivered.\<close>

definition resolved_by_uri :: store where
  "resolved_by_uri = store_after (Note_resolve example_config fed_world 4 example_store
     (Some ''https://remote.example/notes/2'') None)"

definition delivered_once :: store where
  "delivered_once = store_after (Note_resolve example_config fed_world 4 example_store
     None (Some reply_payload))"

text \<open>
  A remote that is not consistent (it serves bob's note also at \<open>notes/9\<close>), and one
  on which bob's note is served as a reply to itself.
\<close>

definition inconsistent_world :: world where
  "inconsistent_world = example_world\<lparr>fetch_note :=
     (\<lambda>u. if u = ''https://remote.example/notes/9'' then Inr (Some reply_payload)
          else serving root_payload reply_payload u)\<rparr>"

definition looping_world :: world where
  "looping_world = example_world\<lparr>fetch_note :=
     serving root_payload (reply_payload\<lparr>p_replies_to := Some (p_uri reply_payload)\<rparr>)\<rparr>"




section \<open>Properties of the visibility and thread engine\<close>

lemma find_SomeD: "find P xs = Some x \<Longrightarrow> x \<in> set xs \<and> P x"
  by (induction xs) (auto split: if_splits)

lemma set_ordered [simp]: "set (ordered ob rows) = set rows"
  by (cases ob) simp_all

subsection \<open>Who may see a note\<close>

text \<open>
  Where the relationship query is not reached (the viewer is the author, the note is
  not private, or the viewer is anonymous) the call resolves, and to a truthy value
  exactly when the viewer is the author, or the note is public or unlisted, or it is
  direct and the (non-anonymous) viewer is among its mentions.
\<close>

lemma isViewableByUser_without_query:
  assumes "map_option user_id v = Some (authorId (status n))
           \<or> visibility (status n) \<noteq> Private \<or> v = None"
  shows "\<exists>x. isViewableByUser db n v = Inr x \<and>
           (truthy x \<longleftrightarrow>
              map_option user_id v = Some (authorId (status n))
            \<or> visibility (status n) = Public \<or> visibility (status n) = Unlisted
            \<or> (visibility (status n) = Direct
                 \<and> (\<exists>u. v = Some u \<and> user_id u \<in> set (mentions n))))"
  using assms
  by (cases "visibility (status n)")
     (auto simp: isViewableByUser_def find_None_iff split: option.splits dest: find_SomeD)

text \<open>
  For a private note and a viewer who is not its author the relationship query is
  sent, and the database refuses it: the call rejects, whatever relationships are
  stored.
\<close>

lemma isViewableByUser_private_rejects:
  assumes "visibility (status n) = Private" and "user_id u \<noteq> authorId (status n)"
  shows "isViewableByUser db n (Some u)
           = Inl (Error ''missing FROM-clause entry for table Notes'')"
  using assms by (auto simp: isViewableByUser_def Relationships_findFirst_def)

text \<open>
  C2. The failing input: a private note of user 0 and the viewer 7, who owns a
  relationship to user 0 with \<open>following\<close> set. The claim makes the note viewable; the
  call rejects, because the relationship query compares \<open>subjectId\<close> with the schema
  column \<open>Notes.authorId\<close> in place of the author of the note.
\<close>

theorem isViewableByUser_rejects_the_follower:
  "visibility (status (chain_Note Private 0)) = Private
   \<and> authorId (status (chain_Note Private 0)) = 0
   \<and> user_id follower = 7
   \<and> map (\<lambda>r. (ownerId r, subjectId r, following r)) (Relationships follower_store)
       = [(7, 0, True)]
   \<and> isViewableByUser follower_store (chain_Note Private 0) (Some follower)
       = Inl (Error ''missing FROM-clause entry for table Notes'')"
  by code_simp

subsection \<open>The filters of the thread walks\<close>

text \<open>
  C3. The thread walks hand the promise of \<open>isViewableByUser\<close> to \<open>filter\<close>, so nothing
  is filtered out. In a thread of three private notes by user 0, the anonymous viewer
  gets both replies as descendants of the root and both parents as ancestors of the
  last reply, although none of them is viewable by the anonymous viewer.
\<close>

theorem thread_walks_keep_unviewable_notes:
  "getDescendants (chain_store Private 2) (chain_Note Private 0) None 0
     = [chain_Note Private 1, chain_Note Private 2]
   \<and> getAncestors (chain_store Private 2) (chain_Note Private 2) None
     = Some [chain_Note Private 0, chain_Note Private 1]
   \<and> map (\<lambda>n. isViewableByUser (chain_store Private 2) n None)
        [chain_Note Private 0, chain_Note Private 1, chain_Note Private 2]
     = [Inr (JBool False), Inr (JBool False), Inr (JBool False)]"
  by code_simp

subsection \<open>Depth of the descendant walk\<close>

lemma getReplyChildren_D:
  "c \<in> set (getReplyChildren db this) \<Longrightarrow>
     status c \<in> set (Notes db) \<and> replyId (status c) = Some (note_id (status this))"
  by (auto simp: getReplyChildren_def Note_manyFromSql_def findManyNotes_def with_relations_def)

lemma getDescendants_unfiltered:
  "getDescendants db this fetcher depth =
     concat (map (\<lambda>child. child #
                       (if depth < 20 then getDescendants db child fetcher (depth + 1) else []))
                  (getReplyChildren db this))"
  by (subst getDescendants.simps) simp

lemma replies_below_step:
  "replies_below db (note_id c) k m \<Longrightarrow> c \<in> set (Notes db) \<Longrightarrow> replyId c = Some a \<Longrightarrow>
     replies_below db a (Suc k) m"
  by (induction db "note_id c" k m rule: replies_below.induct) auto

lemma getDescendants_level:
  "m \<in> set (getDescendants db this fetcher depth) \<Longrightarrow> depth \<le> 20 \<Longrightarrow>
     status m \<in> set (Notes db) \<and>
     (\<exists>k. 1 \<le> k \<and> k \<le> 21 - depth \<and> replies_below db (note_id (status this)) k (status m))"
proof (induction db this fetcher depth arbitrary: m rule: getDescendants.induct)
  case (1 db this fetcher depth)
  from "1.prems" obtain child where
    child: "child \<in> set (getReplyChildren db this)" and
    m: "m = child \<or> (depth < 20 \<and> m \<in> set (getDescendants db child fetcher (depth + 1)))"
    by (subst (asm) getDescendants_unfiltered) (auto split: if_splits)
  note cD = getReplyChildren_D [OF child]
  from m show ?case
  proof
    assume "m = child"
    with cD have "replies_below db (note_id (status this)) 1 (status m)" by simp
    moreover have "(1::nat) \<le> 21 - depth" using "1.prems"(2) by arith
    ultimately show ?thesis using cD \<open>m = child\<close> by blast
  next
    assume a: "depth < 20 \<and> m \<in> set (getDescendants db child fetcher (depth + 1))"
    from "1.IH" [OF child _ _] a obtain k where
      k: "status m \<in> set (Notes db)" "1 \<le> k" "k \<le> 21 - (depth + 1)"
         "replies_below db (note_id (status child)) k (status m)"
      by fastforce
    from replies_below_step [OF k(4)] cD
    have "replies_below db (note_id (status this)) (Suc k) (status m)" by blast
    moreover from k a have "1 \<le> Suc k \<and> Suc k \<le> 21 - depth" by arith
    ultimately show ?thesis using k(1) by blast
  qed
qed

text \<open>
  C8, as stated, fails: on a linear reply chain of depth 25 the walk started at the root
  returns the replies at levels 1 to 21. The reply at level 21 is in the list, and 21 is
  the only level at which it lies below the root.
\<close>

theorem getDescendants_chain25_counterexample:
  "map (note_id \<circ> status) (getDescendants (chain_store Public 25) (chain_Note Public 0) None 0)
     = [1, 2, 3, 4, 5, 6, 7, 8, 9, 10, 11, 12, 13, 14, 15, 16, 17, 18, 19, 20, 21]
   \<and> filter (\<lambda>k. replies_below (chain_store Public 25) 0 k (chain_note Public 21)) [0..<26]
     = [21]"
  by code_simp

text \<open>
  C8, amended. The guard \<open>depth < 20\<close> is tested after a child has been collected, with
  \<open>depth\<close> starting at 0 for the children of the queried note: every note the walk
  returns lies at least 1 and at most 21 levels below the queried note.
\<close>

theorem getDescendants_depth_bound:
  "m \<in> set (getDescendants db this fetcher 0) \<Longrightarrow>
     \<exists>k. 1 \<le> k \<and> k \<le> 21 \<and> replies_below db (note_id (status this)) k (status m)"
  using getDescendants_level [of m db this fetcher 0] by simp

theorem getDescendants_depth_bound_witness:
  "chain_Note Public 21 \<in> set (getDescendants (chain_store Public 25) (chain_Note Public 0) None 0)
   \<and> (\<exists>k. 1 \<le> k \<and> k \<le> 21 \<and> replies_below (chain_store Public 25) 0 k (chain_note Public 21))"
proof -
  have h: "chain_Note Public 21
      \<in> set (getDescendants (chain_store Public 25) (chain_Note Public 0) None 0)"
    by code_simp
  from getDescendants_depth_bound [OF h] show ?thesis
    using h by (simp add: chain_Note_def chain_note_def)
qed

section \<open>Properties of the queries\<close>

lemma ordered_Nil [simp]: "ordered ob [] = []"
  by (cases ob) simp_all

lemma ordered_Nil_iff [simp]: "ordered ob rows = [] \<longleftrightarrow> rows = []"
  by (metis set_ordered set_empty)

lemma Note_fromSql_None_iff:
  "Note_fromSql db wh ob = None \<longleftrightarrow> (\<forall>r \<in> set (Notes db). \<not> wh r)"
proof -
  have "Note_fromSql db wh ob = None
          \<longleftrightarrow> map (with_relations db) (take 1 (ordered ob (filter wh (Notes db)))) = []"
    by (cases "map (with_relations db) (take 1 (ordered ob (filter wh (Notes db))))")
       (simp_all add: Note_fromSql_def findManyNotes_def)
  also have "\<dots> \<longleftrightarrow> filter wh (Notes db) = []"
    by (simp add: take_eq_Nil)
  finally show ?thesis by (simp add: filter_empty_conv)
qed

lemma Note_fromSql_SomeD:
  assumes "Note_fromSql db wh ob = Some n"
  shows "status n \<in> set (Notes db) \<and> wh (status n)"
proof -
  from assms obtain rest where
    "map (with_relations db) (take 1 (ordered ob (filter wh (Notes db)))) = n # rest"
    by (auto simp: Note_fromSql_def findManyNotes_def split: list.splits)
  then have "n \<in> set (map (with_relations db) (take 1 (ordered ob (filter wh (Notes db)))))"
    by simp
  then obtain r where "r \<in> set (take 1 (ordered ob (filter wh (Notes db))))"
      and "n = with_relations db r" by auto
  moreover from this(1) have "r \<in> set (ordered ob (filter wh (Notes db)))"
    by (rule in_set_takeD)
  ultimately show ?thesis by (auto simp: with_relations_def)
qed


lemma User_fromSql_SomeD:
  assumes "User_fromSql db wh = Some u"
  shows "u \<in> set (Users db) \<and> wh u"
proof -
  from assms obtain rest where "ordered (Desc user_id) (filter wh (Users db)) = u # rest"
    by (auto simp: User_fromSql_def findFirstUser_def simp del: ordered.simps
          split: list.splits)
  then have "u \<in> set (ordered (Desc user_id) (filter wh (Users db)))"
    by (simp del: set_ordered ordered.simps)
  then show ?thesis by simp
qed


section \<open>Properties of the inbox gates\<close>

lemma origin_blocked_if_entry:
  assumes "b \<in> set (blocked cfg)" and "str_includes b origin \<or> str_includes origin b"
    and "[] \<notin> set (blocked cfg)"
  shows "origin_blocked cfg origin"
proof -
  from assms(1,2) obtain b' where
    "find (\<lambda>blocked. str_includes blocked origin \<or> str_includes origin blocked) (blocked cfg)
       = Some b'"
    by (cases "find (\<lambda>blocked. str_includes blocked origin \<or> str_includes origin blocked)
                 (blocked cfg)") (auto simp: find_None_iff)
  moreover from this have "b' \<in> set (blocked cfg)" by (auto dest: find_SomeD)
  ultimately show ?thesis using assms(3) by (auto simp: origin_blocked_def truthy_str_def)
qed

text \<open>
  When the handler's first test finds the origin in the block-list, the response is
  201 with an empty body and the store is the one the request found: whatever the
  signature, the body and the collaborators are, no signer was resolved, nothing was
  fetched, nothing was written.
\<close>

lemma inbox_blocked_origin:
  "origin_blocked cfg (req_origin req) \<Longrightarrow>
     inbox cfg w sid n db req = Some (Inr (Response 201 []), db)"
  by (simp add: inbox_def)

text \<open>
  The test takes what \<open>find\<close> returns for a truth value, and \<open>find\<close> returns the
  first entry that matches. The empty string matches every origin and is falsy, so
  a block-list that starts with an empty entry blocks nothing.
\<close>

lemma str_includes_Nil: "str_includes s []"
  by (cases s) simp_all

lemma empty_entry_unblocks:
  "origin_blocked (cfg\<lparr>blocked := [] # bs\<rparr>) origin = False"
  by (simp add: origin_blocked_def truthy_str_def str_includes_Nil)

text \<open>
  C7. The failing input: the block-list holds the empty string and \<open>evil.example\<close>,
  and a signed Follow arrives with the origin \<open>https://evil.example\<close>. The origin
  matches the entry \<open>evil.example\<close>, but \<open>find\<close> returns the empty string: the
  request is processed, the signer is resolved and the Follow is carried out. Without
  the empty entry the same request is answered 201 with an empty body and nothing is
  written; from an origin that is not blocked it is accepted with 200 and a message,
  so the answer to a blocked origin can be told from an acceptance.
\<close>

theorem blocked_origin_is_processed:
  "blocked lenient_config = ['''', ''evil.example'']
   \<and> req_origin follow_from_evil = ''https://evil.example''
   \<and> str_includes ''https://evil.example'' ''evil.example''
   \<and> find (\<lambda>blocked. str_includes blocked ''https://evil.example''
                      \<or> str_includes ''https://evil.example'' blocked)
        (blocked lenient_config) = Some ''''
   \<and> inbox lenient_config trusting_world show_id 0 example_store follow_from_evil
     = Some (Inr (Response 200 ''Follow request sent''),
         example_store\<lparr>
           Relationships := [\<lparr>rel_id = 10, ownerId = 2, subjectId = 1, following = True,
              requested = False, showingReblogs = True, notifying = True\<rparr>],
           Notifications := [\<lparr>accountId = 2, ntype = Follow_notification, notifiedId = 1,
              noteId = None\<rparr>],
           next_id := 11,
           outbox := [FollowAccept_to 2 1]\<rparr>)
   \<and> inbox (lenient_config\<lparr>blocked := [''evil.example'']\<rparr>) trusting_world show_id 0
        example_store follow_from_evil
     = Some (Inr (Response 201 []), example_store)
   \<and> map_option fst
        (inbox (lenient_config\<lparr>blocked := [''evil.example'']\<rparr>) trusting_world show_id 0
           example_store (follow_from_evil\<lparr>req_origin := ''https://remote.example''\<rparr>))
     = Some (Inr (Response 200 ''Follow request sent''))"
  by code_simp

text \<open>
  C10, as stated, fails: the token is looked at only after the block-list and after
  the lookup of the addressed actor. With the bridge enabled and a wrong token, a
  request to the inbox of an unknown actor is answered 404.
\<close>

theorem wrong_token_unknown_actor_counterexample:
  "bridge_enabled example_config
   \<and> req_authorization (bridge_request\<lparr>req_authorization := Some ''Bearer wrong''\<rparr>)
       = Some ''Bearer wrong''
   \<and> nth_opt (js_split ''Bearer '' ''Bearer wrong'') 1 = Some ''wrong''
   \<and> inbox example_config example_world show_id 0 empty_store
        (bridge_request\<lparr>req_authorization := Some ''Bearer wrong''\<rparr>)
      = Some (Inr (Response 404 ''User not found''), empty_store)"
  by (simp add: example_config_def bridge_request_def inbox_def origin_blocked_def
        truthy_str_def User_fromId_def User_fromSql_def findFirstUser_def empty_store_def
        js_split_def nth_opt_def)

text \<open>
  C10, amended. With the bridge enabled, a request whose origin is not blocked and whose
  addressed actor exists, and whose \<open>Authorization\<close> header carries a non-empty token
  after \<open>Bearer\<close> that differs from the configured one, is answered 401; the store is
  the one the request found, whatever the signature and the body are.
\<close>

theorem inbox_wrong_bridge_token:
  assumes "bridge_enabled cfg"
    and "\<not> origin_blocked cfg (req_origin req)"
    and "User_fromId db (Some (req_uuid req)) = Some user"
    and "req_authorization req = Some a"
    and "nth_opt (js_split ''Bearer '' a) 1 = Some token"
    and "token \<noteq> []" and "token \<noteq> bridge_token cfg"
  shows "\<exists>msg. inbox cfg w sid n db req = Some (Inr (Response 401 msg), db)"
  using assms by (simp add: inbox_def bridge_check_def truthy_str_def or_empty_def)

theorem inbox_wrong_bridge_token_witness:
  "\<exists>msg. inbox example_config example_world show_id 0 example_store
       (bridge_request\<lparr>req_authorization := Some ''Bearer wrong''\<rparr>)
     = Some (Inr (Response 401 msg), example_store)"
proof -
  let ?req = "bridge_request\<lparr>req_authorization := Some ''Bearer wrong''\<rparr>"
  have 1: "bridge_enabled example_config" by (simp add: example_config_def)
  have 2: "\<not> origin_blocked example_config (req_origin ?req)"
    by (simp add: origin_blocked_def example_config_def truthy_str_def bridge_request_def)
  have 3: "User_fromId example_store (Some (req_uuid ?req)) = Some local_user"
    by (simp add: User_fromId_def User_fromSql_def findFirstUser_def example_store_def
          empty_store_def bridge_request_def local_user_def remote_alice_def remote_bob_def)
  have 4: "req_authorization ?req = Some ''Bearer wrong''" by simp
  have 5: "nth_opt (js_split ''Bearer '' ''Bearer wrong'') 1 = Some ''wrong''"
    by (simp add: js_split_def nth_opt_def)
  have 6: "''wrong'' \<noteq> []" "''wrong'' \<noteq> bridge_token example_config"
    by (simp_all add: example_config_def)
  from inbox_wrong_bridge_token [OF 1 2 3 4 5 6] show ?thesis .
qed

text \<open>
  C1. Once the bridge token is correct and the caller's address is available, a
  non-empty allow-list switches the signature check off before any of its entries is
  compared with the address; the loop over the entries can only switch it off again.
\<close>

lemma allowed_ips_loop_False: "allowed_ips_loop w address ips False = False"
  by (induction ips) simp_all

lemma bridge_check_ignores_allow_list:
  assumes "bridge_enabled cfg" and "req_authorization req = Some a"
    and "nth_opt (js_split ''Bearer '' a) 1 = Some (bridge_token cfg)"
    and "bridge_token cfg \<noteq> []"
    and "req_ip req = Some address" and "address \<noteq> []"
    and "allowed_ips cfg \<noteq> []"
  shows "bridge_check cfg w req = Inr False"
  using assms
  by (simp add: bridge_check_def truthy_str_def or_empty_def allowed_ips_loop_False)

text \<open>
  The failing input of C1: the allow-list holds \<open>10.0.0.1\<close> only, the request comes
  from \<open>203.0.113.9\<close> with the right token and a \<open>Signature\<close> header without key. No
  entry matches the address, the signature check is skipped all the same, and the
  Follow in the body is carried out: alice now follows the local actor, who was
  notified and whose accept went out.
\<close>

theorem bridge_outside_allow_list_is_processed:
  "filter (\<lambda>ip. matches example_world ip ''203.0.113.9'') (allowed_ips example_config) = []
   \<and> bridge_check example_config example_world bridge_request = Inr False
   \<and> fst (verify_signature example_config example_world example_store bridge_request)
       = Inl (TypeError ''undefined is not an object'')
   \<and> inbox example_config example_world show_id 0 example_store bridge_request
     = Some (Inr (Response 200 ''Follow request sent''),
         example_store\<lparr>
           Relationships := [\<lparr>rel_id = 10, ownerId = 2, subjectId = 1, following = True,
              requested = False, showingReblogs = True, notifying = True\<rparr>],
           Notifications := [\<lparr>accountId = 2, ntype = Follow_notification, notifiedId = 1,
              noteId = None\<rparr>],
           next_id := 11,
           outbox := [FollowAccept_to 2 1]\<rparr>)"
  by code_simp

section \<open>Properties of the resolvers: local URIs\<close>






section \<open>Properties of the dispatcher\<close>

subsection \<open>Follow\<close>

lemma find_map_preserved:
  "(\<And>x. P (g x) = P x) \<Longrightarrow> find P (map g xs) = map_option g (find P xs)"
  by (induction xs) simp_all

lemma find_append_None: "find P xs = None \<Longrightarrow> find P (xs @ ys) = find P ys"
  by (induction xs) (auto split: if_splits)

lemma User_resolve_stored:
  "User_fromSql db (\<lambda>u. user_uri u = Some uri) = Some A \<Longrightarrow>
     User_resolve cfg w db uri = (Inr (Some A), db)"
  by (simp add: User_resolve_def)

lemma User_fromSql_cong: "Users db' = Users db \<Longrightarrow> User_fromSql db' wh = User_fromSql db wh"
  by (simp add: User_fromSql_def findFirstUser_def)

text \<open>
  For an actor A stored under the URI the Follow names and an unlocked addressed
  actor T that A does not follow yet, two deliveries of the Follow to the dispatcher
  leave a relationship of A to T with \<open>following\<close> set, one more notification than
  before and one more accept in the outbox; the second delivery answers "Already
  following" and leaves the store as the first left it.
\<close>

lemma follow_twice:
  assumes stored: "User_fromSql db (\<lambda>u. user_uri u = Some author) = Some A"
    and unlocked: "\<not> isLocked T"
    and not_yet: "\<forall>r \<in> set (Relationships db).
                    ownerId r = user_id A \<and> subjectId r = user_id T \<longrightarrow> \<not> following r"
    and first: "inbox_follow cfg w db T author = (r1, db1)"
    and second: "inbox_follow cfg w db1 T author = (r2, db2)"
  shows "r1 = Inr (Response 200 ''Follow request sent'')
       \<and> r2 = Inr (Response 200 ''Already following'')
       \<and> db2 = db1
       \<and> (\<exists>r. find (\<lambda>r. ownerId r = user_id A \<and> subjectId r = user_id T) (Relationships db2)
                = Some r \<and> following r \<and> \<not> requested r)
       \<and> Notifications db2 = Notifications db @
            [\<lparr>accountId = user_id A, ntype = Follow_notification, notifiedId = user_id T,
              noteId = None\<rparr>]
       \<and> outbox db2 = outbox db @ [FollowAccept_to (user_id A) (user_id T)]"
proof -
  let ?P = "\<lambda>r. ownerId r = user_id A \<and> subjectId r = user_id T"
  obtain r0 dbr where rel: "getRelationshipToOtherUser db A T = (r0, dbr)"
    by (cases "getRelationshipToOtherUser db A T")
  let ?g = "\<lambda>r. if rel_id r = rel_id r0
                 then r\<lparr>following := True, requested := False,
                        showingReblogs := True, notifying := True\<rparr> else r"
  have r0: "find ?P (Relationships dbr) = Some r0 \<and> \<not> following r0
            \<and> Users dbr = Users db \<and> Notifications dbr = Notifications db
            \<and> outbox dbr = outbox db"
  proof (cases "find ?P (Relationships db)")
    case None
    with rel show ?thesis
      by (auto simp: getRelationshipToOtherUser_def Let_def find_append_None)
  next
    case (Some r)
    with rel not_yet show ?thesis
      by (auto simp: getRelationshipToOtherUser_def dest: find_SomeD)
  qed
  have 1: "r1 = Inr (Response 200 ''Follow request sent'')"
    and db1: "db1 = dbr\<lparr>Relationships := map ?g (Relationships dbr),
                 Notifications := Notifications dbr @
                   [\<lparr>accountId = user_id A, ntype = Follow_notification,
                     notifiedId = user_id T, noteId = None\<rparr>],
                 outbox := outbox dbr @ [FollowAccept_to (user_id A) (user_id T)]\<rparr>"
    using first unlocked rel r0
    by (auto simp: inbox_follow_def User_resolve_stored [OF stored] sendFollowAccept_def)
  have "find ?P (map ?g (Relationships dbr)) = map_option ?g (find ?P (Relationships dbr))"
    by (rule find_map_preserved) simp
  with r0 have f1: "find ?P (Relationships db1) = Some (?g r0)"
    by (simp add: db1)
  have "Users db1 = Users db" using r0 by (simp add: db1)
  then have stored1: "User_fromSql db1 (\<lambda>u. user_uri u = Some author) = Some A"
    using stored by (simp add: User_fromSql_cong [of db1 db])
  have rel1: "getRelationshipToOtherUser db1 A T = (?g r0, db1)"
    using f1 by (simp add: getRelationshipToOtherUser_def)
  have 2: "r2 = Inr (Response 200 ''Already following'')" and db2: "db2 = db1"
    using second rel1
    by (auto simp: inbox_follow_def User_resolve_stored [OF stored1])
  from f1 have "\<exists>r. find ?P (Relationships db2) = Some r \<and> following r \<and> \<not> requested r"
    by (simp add: db2)
  moreover have "Notifications db2 = Notifications db @
      [\<lparr>accountId = user_id A, ntype = Follow_notification, notifiedId = user_id T,
        noteId = None\<rparr>]"
    using r0 by (simp add: db2 db1)
  moreover have "outbox db2 = outbox db @ [FollowAccept_to (user_id A) (user_id T)]"
    using r0 by (simp add: db2 db1)
  ultimately show ?thesis using 1 2 db2 by blast
qed

lemma follow_twice_alice:
  "fst (inbox_follow example_config example_world
          (snd (inbox_follow example_config example_world example_store local_user
                  ''https://remote.example/users/alice''))
          local_user ''https://remote.example/users/alice'')
     = Inr (Response 200 ''Already following'')
   \<and> Notifications
        (snd (inbox_follow example_config example_world
          (snd (inbox_follow example_config example_world example_store local_user
                  ''https://remote.example/users/alice''))
          local_user ''https://remote.example/users/alice''))
     = [\<lparr>accountId = 2, ntype = Follow_notification, notifiedId = 1, noteId = None\<rparr>]
   \<and> outbox
        (snd (inbox_follow example_config example_world
          (snd (inbox_follow example_config example_world example_store local_user
                  ''https://remote.example/users/alice''))
          local_user ''https://remote.example/users/alice''))
     = [FollowAccept_to 2 1]"
proof -
  let ?first = "inbox_follow example_config example_world example_store local_user
                  ''https://remote.example/users/alice''"
  let ?second = "inbox_follow example_config example_world (snd ?first) local_user
                  ''https://remote.example/users/alice''"
  have s: "User_fromSql example_store
             (\<lambda>u. user_uri u = Some ''https://remote.example/users/alice'') = Some remote_alice"
    by code_simp
  have u: "\<not> isLocked local_user" by (simp add: local_user_def)
  have n: "\<forall>r \<in> set (Relationships example_store).
             ownerId r = user_id remote_alice \<and> subjectId r = user_id local_user
               \<longrightarrow> \<not> following r"
    by (simp add: example_store_def empty_store_def)
  have f1: "?first = (fst ?first, snd ?first)" and f2: "?second = (fst ?second, snd ?second)"
    by simp_all
  have v: "Notifications example_store = []" "outbox example_store = []"
      "user_id remote_alice = 2" "user_id local_user = 1"
    by (simp_all add: remote_alice_def local_user_def example_store_def empty_store_def)
  from follow_twice [OF s u n f1 f2] show ?thesis
    unfolding v by (elim conjE) simp
qed

text \<open>
  The handler runs the Follow callback, on the store that signature verification
  left, for every request that passes the gates with a Follow as its body.
\<close>

lemma inbox_dispatches_follow:
  assumes "\<not> origin_blocked cfg (req_origin req)"
    and "User_fromId db (Some (req_uuid req)) = Some T"
    and "bridge_check cfg w req = Inr True"
    and "verify_signature cfg w db req = (Inr None, db1)"
    and "req_body req = Follow_activity author"
    and "inbox_follow cfg w db1 T author = (Inr r, db2)"
  shows "inbox cfg w sid n db req = Some (Inr r, db2)"
  using assms by (simp add: inbox_def)

text \<open>
  An actor that is stored, but not under the URI at hand, is fetched again and then
  updated, and the update of a remote actor throws: \<open>update\<close> federates the actor
  whenever \<open>endpoints\<close> is set, and \<open>toLysand\<close> refuses remote actors. The row has
  been rewritten by then.
\<close>

lemma User_saveFromRemote_known_actor_throws:
  assumes "canParse w uri" and "fetch_user w uri = Inr data"
    and "fetch_all_emojis w (u_emojis data) = Inr emojis"
    and "User_fromSql db (\<lambda>u. user_uri u = Some (u_uri data)) = Some A"
    and "distinct (map user_id (Users db))" and "instanceId A \<noteq> None"
  shows "fst (User_saveFromRemote w db uri)
           = Inl (Error ''Cannot convert remote user to Lysand format'')"
proof -
  let ?set = "\<lambda>u. u\<lparr>displayName := (case u_display_name data of None \<Rightarrow> [] | Some n \<Rightarrow> n),
                      publicKey := u_public_key data\<rparr>"
  obtain i db2 where i: "addInstanceIfNotExists w (db\<lparr>fetched := fetched db @ [uri]\<rparr>)
                           (u_uri data) = (i, db2)"
    by (cases "addInstanceIfNotExists w (db\<lparr>fetched := fetched db @ [uri]\<rparr>) (u_uri data)")
  then have users: "Users db2 = Users db"
    by (auto simp: addInstanceIfNotExists_def Let_def split: if_splits)
  then have found: "User_fromSql db2 (\<lambda>u. user_uri u = Some (u_uri data)) = Some A"
    using assms(4) by (simp add: User_fromSql_def findFirstUser_def)
  from User_fromSql_SomeD [OF assms(4)] have A: "A \<in> set (Users db)" by simp
  have only: "filter (\<lambda>u. user_id u = user_id A) (Users db) = [A]"
    using assms(5) A
  proof (induction "Users db" arbitrary: db)
    case Nil
    then show ?case by simp
  next
    case (Cons u us)
    show ?case
    proof (cases "u = A")
      case True
      with Cons(2,3) have "\<forall>x \<in> set us. user_id x \<noteq> user_id A"
        by (metis distinct.simps(2) image_eqI list.simps(9) set_map)
      then have "filter (\<lambda>u. user_id u = user_id A) us = []"
        by (simp add: filter_empty_conv)
      with True Cons(2) [symmetric] show ?thesis by simp
    next
      case False
      with Cons(2,3,4) have "user_id u \<noteq> user_id A" and "A \<in> set us" and "distinct (map user_id us)"
        by (auto simp: Cons(2) [symmetric] rev_image_eqI)
      moreover from Cons(1) [of "db\<lparr>Users := us\<rparr>"] this
      have "filter (\<lambda>u. user_id u = user_id A) us = [A]" by simp
      ultimately show ?thesis using Cons(2) [symmetric] by simp
    qed
  qed
  let ?db3 = "db2\<lparr>Users := map (\<lambda>u. if user_id u = user_id A then ?set u else u) (Users db2)\<rparr>"
  have "filter (\<lambda>u. user_id u = user_id A) (Users ?db3)
          = map ?set (filter (\<lambda>u. user_id u = user_id A) (Users db2))"
    by (induction "Users db2" arbitrary: db2) (simp_all add: filter_map comp_def)
  then have "ordered (Desc user_id) (filter (\<lambda>u. user_id u = user_id A) (Users ?db3)) = [?set A]"
    using only users by simp
  then have new: "User_fromId ?db3 (Some (user_id (?set A))) = Some (?set A)"
    by (simp add: User_fromId_def User_fromSql_def findFirstUser_def)
  have "User_update db2 A ?set True
          = (Inl (Error ''Cannot convert remote user to Lysand format''), ?db3)"
    using only users new assms(6)
    by (simp add: User_update_def Let_def isRemote_def isLocal_def)
  then show ?thesis
    using assms(1-3) i found by (simp add: User_saveFromRemote_def Let_def)
qed

text \<open>
  C5. The failing input: carol is a remote actor whose document carries the uri
  \<open>https://remote.example/users/carol\<close> and is also served at
  \<open>https://remote.example/@carol\<close>; the local actor (id 1) is unlocked; the Follow
  names carol by the second URL.

  Over the bridge (token and address accepted, no signature check) the first delivery
  fetches carol, stores her under the uri of her document and carries the Follow out.
  The second delivery does not find her under the URL of the Follow, fetches her again,
  finds her row by the uri of the document and updates it, which throws: the answer is
  500, and she was fetched a second time.

  Signed with carol's key, the first delivery stores her while the signature is
  verified; the Follow callback then fails in the same way. The answer is 500, and no
  relationship, notification or accept exists afterwards.
\<close>

theorem second_follow_of_aliased_actor_fails:
  "fetch_user alias_world ''https://remote.example/@carol'' = Inr carol_document
   \<and> u_uri carol_document = ''https://remote.example/users/carol''
   \<and> map_option fst (inbox example_config alias_world show_id 0 example_store bridged_follow)
       = Some (Inr (Response 200 ''Follow request sent''))
   \<and> map (\<lambda>u. (user_id u, user_uri u)) (Users bridged_once)
       = [(1, None), (2, Some ''https://remote.example/users/alice''),
          (3, Some ''https://remote.example/users/bob''),
          (10, Some ''https://remote.example/users/carol'')]
   \<and> map (\<lambda>r. (ownerId r, subjectId r, following r)) (Relationships bridged_once)
       = [(10, 1, True)]
   \<and> length (Notifications bridged_once) = 1
   \<and> outbox bridged_once = [FollowAccept_to 10 1]
   \<and> inbox example_config alias_world show_id 0 bridged_once bridged_follow
       = Some (Inr (Response 500 ''Failed to process request''),
               bridged_once\<lparr>fetched := [''https://remote.example/@carol'',
                                         ''https://remote.example/@carol'']\<rparr>)
   \<and> inbox (example_config\<lparr>bridge_enabled := False\<rparr>) alias_world show_id 0 example_store
        signed_follow
       = Some (Inr (Response 500 ''Failed to process request''),
               example_store\<lparr>
                 Users := Users bridged_once, Instances := [''https://remote.example''],
                 next_id := 11,
                 fetched := [''https://remote.example/@carol'',
                             ''https://remote.example/@carol''],
                 search_index := [10]\<rparr>)"
  by code_simp

subsection \<open>Undo\<close>

text \<open>
  What the Undo callback does after the note lookup found nothing: the target is
  resolved as an actor; the addressed actor's own URI deletes that actor, the URI of
  another actor is refused and nothing is deleted.
\<close>

lemma inbox_undo_own_actor:
  assumes "Note_fromSql db (\<lambda>r. note_uri r = Some toDelete)
             (Asc (\<lambda>r. if authorId r = user_id user then 1 else 0)) = None"
    and "User_resolve cfg w db toDelete = (Inr (Some otherUser), db1)"
    and "user_id otherUser = user_id user"
  shows "inbox_undo cfg w db user toDelete
           = (Inr (Response 200 ''Account deleted''), User_delete db1 user)"
  using assms by (simp add: inbox_undo_def)

lemma inbox_undo_other_actor:
  assumes "Note_fromSql db (\<lambda>r. note_uri r = Some toDelete)
             (Asc (\<lambda>r. if authorId r = user_id user then 1 else 0)) = None"
    and "User_resolve cfg w db toDelete = (Inr (Some otherUser), db1)"
    and "user_id otherUser \<noteq> user_id user"
  shows "inbox_undo cfg w db user toDelete
           = (Inr (Response 400 ''Cannot delete other users than self''), db1)"
  using assms by (simp add: inbox_undo_def)

text \<open>
  C6. The note lookup of the Undo callback does not select on the author. An Undo
  that reaches the inbox of the local actor (id 1) with a valid signature and names the
  uri of bob's note (author id 3) is answered "Note deleted", and the note is gone.
\<close>

theorem undo_deletes_note_of_another_actor:
  "authorId bob_note = 3 \<and> req_uuid undo_request = 1
   \<and> Notes store_with_note = [bob_note]
   \<and> inbox (example_config\<lparr>bridge_enabled := False\<rparr>) trusting_world show_id 0
        store_with_note undo_request
     = Some (Inr (Response 200 ''Note deleted''), store_with_note\<lparr>Notes := []\<rparr>)"
  by code_simp

section \<open>Properties of the note resolver\<close>

subsection \<open>What leaves the notes alone\<close>

lemma Notes_federateToFollowers [simp]: "Notes (federateToFollowers db u) = Notes db"
  by (simp add: federateToFollowers_def Let_def)

lemma Notes_User_update: "User_update db this f imp = (r, db') \<Longrightarrow> Notes db' = Notes db"
  by (auto simp: User_update_def Let_def split: list.splits option.splits if_splits)

lemma Notes_addInstance: "addInstanceIfNotExists w db u = (i, db') \<Longrightarrow> Notes db' = Notes db"
  by (auto simp: addInstanceIfNotExists_def Let_def split: if_splits)

lemma Notes_User_saveFromRemote: "User_saveFromRemote w db u = (r, db') \<Longrightarrow> Notes db' = Notes db"
  by (auto simp: User_saveFromRemote_def Let_def split: sum.splits prod.splits option.splits if_splits
       dest!: Notes_addInstance Notes_User_update)

lemma Notes_User_resolve: "User_resolve cfg w db u = (r, db') \<Longrightarrow> Notes db' = Notes db"
  by (auto simp: User_resolve_def split: option.splits if_splits dest: Notes_User_saveFromRemote)

lemma Notes_resolve_mentions:
  "resolve_mentions cfg w db ms = (r, db') \<Longrightarrow> Notes db' = Notes db"
  by (induction ms arbitrary: db r db')
     (auto split: prod.splits sum.splits dest!: Notes_User_resolve)

lemma Notes_connect_mentions:
  "connect_mentions db nid ms = (r, db') \<Longrightarrow> Notes db' = Notes db"
  by (induction db nid ms rule: connect_mentions.induct) auto

lemma Notes_notify_mentions:
  "notify_mentions db aid nid ms = (r, db') \<Longrightarrow> Notes db' = Notes db"
  by (induction db aid nid ms rule: notify_mentions.induct) (auto split: if_splits)

subsection \<open>Queries, and the two ends of saveFromRemote\<close>

lemma Note_fromSql_uri_None_iff:
  "Note_fromSql db (\<lambda>r. note_uri r = Some k) ob = None \<longleftrightarrow> \<not> stored db k"
  by (force simp: Note_fromSql_None_iff stored_def note_uris_def)

lemma Notes_begin:
  "saveFromRemote_begin cfg w db uri prov = (r, db') \<Longrightarrow> Notes db' = Notes db"
  by (auto simp: saveFromRemote_begin_def Let_def
        split: if_splits sum.splits prod.splits option.splits dest!: Notes_User_resolve)

lemma begin_Inr:
  assumes "saveFromRemote_begin cfg w db uri prov = (Inr (fs, note, author, emojis), db')"
  shows "fs = Note_fromSql db (\<lambda>r. note_uri r = Some (lookup_key uri prov)) (Desc note_id)
       \<and> (if truthy_str uri then fetch_note w (or_empty uri) = Inr (Some note)
          else prov = Some note)"
  using assms
  by (auto simp: saveFromRemote_begin_def Let_def lookup_key_def
        split: if_splits sum.splits prod.splits option.splits)

lemma fromData_cases:
  assumes "Note_fromData w db author c v s sp em uri ms rid qid = (r, db')"
  shows "(Notes db' = Notes db \<and> isl r)
       \<or> (\<exists>row. Notes db' = Notes db @ [row]
              \<and> note_uri row = (if truthy_str uri then uri else None)
              \<and> note_id row = next_id db)"
  using assms
  by (auto simp: Note_fromData_def Let_def Note_insert_def
        split: sum.splits prod.splits
        dest!: Notes_connect_mentions Notes_notify_mentions)

lemma fromData_Inr:
  assumes "Note_fromData w db author c v s sp em uri ms rid qid = (Inr x, db')"
  shows "\<exists>row. Notes db' = Notes db @ [row]
              \<and> note_uri row = (if truthy_str uri then uri else None)
              \<and> note_id row = next_id db"
  using fromData_cases [OF assms] by simp

lemma updateFromData_frame:
  assumes "Note_updateFromData w db this c v s sp em ms rid qid = (r, db')"
  shows "map note_uri (Notes db') = map note_uri (Notes db)
       \<and> map note_id (Notes db') = map note_id (Notes db)"
  using assms
  by (auto simp: Note_updateFromData_def Let_def comp_def
        split: sum.splits prod.splits option.splits list.splits if_splits
        dest!: Notes_connect_mentions)

subsection \<open>The shape of a resolution\<close>

lemma save_Suc:
  "Note_saveFromRemote cfg w (Suc n) db uri prov =
     (case saveFromRemote_deps cfg w n db uri prov of
        None \<Rightarrow> None
      | Some (Inl e, d) \<Rightarrow> Some (Inl e, d)
      | Some (Inr (fs, note, author, emojis, ms, rid, qid), d) \<Rightarrow>
          Some (saveFromRemote_end w d fs note author emojis ms rid qid))"
  by (simp add: saveFromRemote_deps_def resolve_target_def Note_saveFromRemote.simps
        split: prod.splits sum.splits option.splits)

lemma save_0 [simp]: "Note_saveFromRemote cfg w 0 db uri prov = None"
  by (simp add: Note_saveFromRemote.simps)

lemma resolve_Suc_cases:
  assumes "Note_resolve cfg w (Suc n) db uri prov = Some (r, db')"
  obtains (found) k f where "uri = Some k" "k \<noteq> []" "stored db k"
      "Note_fromSql db (\<lambda>r. note_uri r = Some k) (Desc note_id) = Some f"
      "r = Inr (Some f)" "db' = db"
    | (local) u where "uri = Some u" "prefix (base_url cfg) u" "db' = db"
    | (remote) "\<forall>k. uri = Some k \<longrightarrow> k \<noteq> [] \<longrightarrow> \<not> stored db k"
      "\<forall>u. uri = Some u \<longrightarrow> \<not> prefix (base_url cfg) u"
      "Note_saveFromRemote cfg w n db uri prov = Some (r, db')"
proof (cases "if truthy_str uri then Note_fromSql db (\<lambda>r. note_uri r = uri) (Desc note_id) else None")
  case (Some f)
  then have t: "truthy_str uri"
    and f: "Note_fromSql db (\<lambda>r. note_uri r = uri) (Desc note_id) = Some f"
    by (simp_all split: if_splits)
  from t obtain k where k: "uri = Some k" "k \<noteq> []"
    by (auto simp: truthy_str_def split: option.splits)
  from f k have "stored db k"
    using Note_fromSql_uri_None_iff [of db k "Desc note_id"] by auto
  moreover from assms Some have "r = Inr (Some f)" "db' = db" by simp_all
  ultimately show ?thesis using k f by (intro found) simp_all
next
  case None
  note nf = this
  show ?thesis
  proof (cases "case uri of None \<Rightarrow> False | Some u \<Rightarrow> prefix (base_url cfg) u")
    case True
    then obtain u where u: "uri = Some u" "prefix (base_url cfg) u"
      by (auto split: option.splits)
    from assms nf True have "db' = db"
      by (auto split: option.splits)
    with u show ?thesis by (intro local)
  next
    case False
    with assms nf have s: "Note_saveFromRemote cfg w n db uri prov = Some (r, db')"
      by simp
    from nf have "\<forall>k. uri = Some k \<longrightarrow> k \<noteq> [] \<longrightarrow> \<not> stored db k"
      by (auto simp: truthy_str_def Note_fromSql_uri_None_iff split: if_splits)
    moreover from False have "\<forall>u. uri = Some u \<longrightarrow> \<not> prefix (base_url cfg) u"
      by auto
    ultimately show ?thesis using s by (intro remote)
  qed
qed

lemma resolve_target_step:
  "resolve_target cfg w n db t = Some (r, db') \<Longrightarrow> target_step cfg w n db db'"
  by (cases t) (auto simp: resolve_target_def target_step_def truthy_str_def split: if_splits)

lemma resolve_target_Inr:
  assumes "resolve_target cfg w n db (Some t) = Some (Inr rid, db')" and "t \<noteq> []"
  shows "\<exists>res. Note_resolve cfg w n db (Some t) None = Some (Inr res, db')"
proof -
  from assms obtain x where x: "Note_resolve cfg w n db (Some t) None = Some (x, db')"
      and m: "map_sum id (map_option (note_id \<circ> status)) x = Inr rid"
    by (auto simp: resolve_target_def truthy_str_def)
  from m obtain res where "x = Inr res" by (cases x) simp_all
  with x show ?thesis by simp
qed

lemma deps_Inr_cases:
  assumes "saveFromRemote_deps cfg w n db uri prov
             = Some (Inr (fs, note, author, emojis, ms, rid, qid), d)"
  obtains db1 db2 db3 where
    "saveFromRemote_begin cfg w db uri prov = (Inr (fs, note, author, emojis), db1)"
    "resolve_mentions cfg w db1 (case p_mentions note of None \<Rightarrow> [] | Some ms \<Rightarrow> ms)
       = (Inr ms, db2)"
    "resolve_target cfg w n db2 (p_replies_to note) = Some (Inr rid, db3)"
    "resolve_target cfg w n db3 (p_quotes note) = Some (Inr qid, d)"
  using assms
  by (auto simp: saveFromRemote_deps_def split: prod.splits sum.splits option.splits)

lemma deps_steps:
  assumes "saveFromRemote_deps cfg w n db uri prov = Some (r, d)"
  obtains db2 db3 where "Notes db2 = Notes db" "target_step cfg w n db2 db3"
    "target_step cfg w n db3 d"
proof -
  have refl: "\<And>a. target_step cfg w n a a" by (simp add: target_step_def)
  obtain b db1 where b: "saveFromRemote_begin cfg w db uri prov = (b, db1)"
    by (cases "saveFromRemote_begin cfg w db uri prov")
  then have n1: "Notes db1 = Notes db" by (rule Notes_begin)
  show ?thesis
  proof (cases b)
    case (Inl e)
    with assms b have "d = db1" by (simp add: saveFromRemote_deps_def)
    with n1 refl show ?thesis by (intro that [of d d]) simp_all
  next
    case (Inr x)
    obtain fs nt author emojis where x: "x = (fs, nt, author, emojis)" by (cases x)
    obtain m db2 where m: "resolve_mentions cfg w db1
        (case p_mentions nt of None \<Rightarrow> [] | Some ms \<Rightarrow> ms) = (m, db2)"
      by (cases "resolve_mentions cfg w db1 (case p_mentions nt of None \<Rightarrow> [] | Some ms \<Rightarrow> ms)")
    then have n2: "Notes db2 = Notes db" using n1 by (simp add: Notes_resolve_mentions)
    show ?thesis
    proof (cases m)
      case (Inl e)
      with assms b Inr x m have "d = db2" by (simp add: saveFromRemote_deps_def)
      with n2 refl show ?thesis by (intro that [of d d]) simp_all
    next
      case ms: (Inr ms)
      from assms b Inr x m ms obtain a db3 where
        a: "resolve_target cfg w n db2 (p_replies_to nt) = Some (a, db3)"
        by (auto simp: saveFromRemote_deps_def split: option.splits)
      note s1 = resolve_target_step [OF a]
      show ?thesis
      proof (cases a)
        case (Inl e)
        with assms b Inr x m ms a have "d = db3" by (simp add: saveFromRemote_deps_def)
        with n2 s1 refl show ?thesis by (intro that [of db2 d]) simp_all
      next
        case rid: (Inr rid)
        from assms b Inr x m ms a rid obtain q where
          q: "resolve_target cfg w n db3 (p_quotes nt) = Some (q, d)"
          by (auto simp: saveFromRemote_deps_def split: option.splits sum.splits)
        from n2 s1 resolve_target_step [OF q] show ?thesis by (rule that)
      qed
    qed
  qed
qed

subsection \<open>Rows are only added under uris that were not stored\<close>

lemma extends_same: "Notes db' = Notes db \<Longrightarrow> extends db db'"
  by (simp add: extends_def note_uris_def)

lemma stored_cong: "Notes db' = Notes db \<Longrightarrow> stored db' k = stored db k"
  by (simp add: stored_def note_uris_def)

lemma stored_mono: "extends db db' \<Longrightarrow> stored db k \<Longrightarrow> stored db' k"
  by (auto simp: extends_def stored_def)

lemma extends_trans: "extends a b \<Longrightarrow> extends b c \<Longrightarrow> extends a c"
proof -
  assume ab: "extends a b" and bc: "extends b c"
  from ab obtain n1 where n1: "note_uris b = note_uris a @ n1"
    "\<forall>k. Some k \<in> set n1 \<longrightarrow> \<not> stored a k" by (auto simp: extends_def)
  from bc obtain n2 where n2: "note_uris c = note_uris b @ n2"
    "\<forall>k. Some k \<in> set n2 \<longrightarrow> \<not> stored b k" by (auto simp: extends_def)
  from n2(2) ab have "\<forall>k. Some k \<in> set n2 \<longrightarrow> \<not> stored a k"
    by (blast dest: stored_mono)
  with n1 n2(1) have "note_uris c = note_uris a @ (n1 @ n2)
      \<and> (\<forall>k. Some k \<in> set (n1 @ n2) \<longrightarrow> \<not> stored a k)" by auto
  then show "extends a c" unfolding extends_def by blast
qed

lemma extends_Notes_left: "Notes a' = Notes a \<Longrightarrow> extends a b \<Longrightarrow> extends a' b"
  by (simp add: extends_def note_uris_def stored_def)

lemma begin_key:
  assumes b: "saveFromRemote_begin cfg w db uri prov = (Inr (fs, nt, author, emojis), db1)"
    and c: "consistent w" and wf: "wf_call w uri prov"
  shows "fs = Note_fromSql db (\<lambda>r. note_uri r = Some (lookup_key uri prov)) (Desc note_id)"
    and "p_uri nt = lookup_key uri prov"
    and "fetch_note w (lookup_key uri prov) = Inr (Some nt)"
proof -
  note bi = begin_Inr [OF b]
  from bi show "fs = Note_fromSql db (\<lambda>r. note_uri r = Some (lookup_key uri prov)) (Desc note_id)"
    by simp
  show "p_uri nt = lookup_key uri prov" and "fetch_note w (lookup_key uri prov) = Inr (Some nt)"
  proof -
    have "p_uri nt = lookup_key uri prov \<and> fetch_note w (lookup_key uri prov) = Inr (Some nt)"
    proof (cases "truthy_str uri")
      case True
      then obtain u where u: "uri = Some u" by (auto simp: truthy_str_def split: option.splits)
      with bi True have f: "fetch_note w u = Inr (Some nt)" by (simp add: or_empty_def)
      with c have "p_uri nt = u" by (auto simp: consistent_def)
      with f u show ?thesis by (simp add: lookup_key_def)
    next
      case False
      with wf have u: "uri = None" by (cases uri) (auto simp: wf_call_def truthy_str_def)
      from bi False have p: "prov = Some nt" by simp
      with wf u have "served w nt" by (simp add: wf_call_def)
      with u p show ?thesis by (simp add: lookup_key_def served_def)
    qed
    then show "p_uri nt = lookup_key uri prov"
      and "fetch_note w (lookup_key uri prov) = Inr (Some nt)" by simp_all
  qed
qed

lemma end_uris:
  assumes "saveFromRemote_end w d fs nt author emojis ms rid qid = (r, db')"
  shows "(case fs of
            Some f \<Rightarrow> note_uris db' = note_uris d
          | None \<Rightarrow> (note_uris db' = note_uris d \<and> isl r)
                    \<or> note_uris db' = note_uris d @ [if p_uri nt \<noteq> [] then Some (p_uri nt) else None])"
proof (cases fs)
  case (Some f)
  with assms show ?thesis
    by (auto simp: saveFromRemote_end_def Let_def note_uris_def dest: updateFromData_frame)
next
  case None
  obtain r0 d0 where f: "Note_fromData w d author
      (case p_content nt of None \<Rightarrow> [(''text/plain'', [])] | Some c \<Rightarrow> c) (p_visibility nt)
      (case p_is_sensitive nt of None \<Rightarrow> False | Some b \<Rightarrow> b)
      (case p_subject nt of None \<Rightarrow> [] | Some s \<Rightarrow> s) emojis (Some (p_uri nt)) ms rid qid
      = (r0, d0)"
    by (cases "Note_fromData w d author
      (case p_content nt of None \<Rightarrow> [(''text/plain'', [])] | Some c \<Rightarrow> c) (p_visibility nt)
      (case p_is_sensitive nt of None \<Rightarrow> False | Some b \<Rightarrow> b)
      (case p_subject nt of None \<Rightarrow> [] | Some s \<Rightarrow> s) emojis (Some (p_uri nt)) ms rid qid")
  with assms None have d0: "d0 = db'" and r: "isl r0 \<Longrightarrow> isl r"
    by (auto simp: saveFromRemote_end_def Let_def split: sum.splits option.splits)
  from fromData_cases [OF f] d0 r None show ?thesis
    by (auto simp: note_uris_def truthy_str_def)
qed

lemma end_extends:
  assumes e: "saveFromRemote_end w d fs nt author emojis ms rid qid = (r, db')"
    and fs: "fs = Note_fromSql db (\<lambda>r. note_uri r = Some k) (Desc note_id)"
    and k: "p_uri nt = k" and x: "extends db d"
  shows "extends db db'"
proof (cases fs)
  case (Some f)
  with end_uris [OF e] have "note_uris db' = note_uris d" by simp
  then have "extends d db'" by (simp add: extends_def)
  with x show ?thesis by (rule extends_trans)
next
  case None
  with fs have "Note_fromSql db (\<lambda>r. note_uri r = Some k) (Desc note_id) = None" by simp
  then have ns: "\<not> stored db k" by (simp add: Note_fromSql_uri_None_iff)
  from x obtain new where new: "note_uris d = note_uris db @ new"
    "\<forall>k. Some k \<in> set new \<longrightarrow> \<not> stored db k" by (auto simp: extends_def)
  from end_uris [OF e] None k
  have "note_uris db' = note_uris d
      \<or> note_uris db' = note_uris d @ [if k \<noteq> [] then Some k else None]" by auto
  then show ?thesis
  proof
    assume "note_uris db' = note_uris d"
    with new show ?thesis unfolding extends_def by auto
  next
    assume "note_uris db' = note_uris d @ [if k \<noteq> [] then Some k else None]"
    with new ns have "note_uris db' = note_uris db @ (new @ [if k \<noteq> [] then Some k else None])
      \<and> (\<forall>j. Some j \<in> set (new @ [if k \<noteq> [] then Some k else None]) \<longrightarrow> \<not> stored db j)"
      by auto
    then show ?thesis unfolding extends_def by blast
  qed
qed

lemma wf_call_target: "t \<noteq> [] \<Longrightarrow> wf_call w (Some t) None"
  by (simp add: wf_call_def)

lemma resolve_extends_aux:
  assumes c: "consistent w"
  shows "(\<forall>db uri prov r db'. wf_call w uri prov \<longrightarrow>
            Note_resolve cfg w n db uri prov = Some (r, db') \<longrightarrow> extends db db')
       \<and> (\<forall>db uri prov r db'. wf_call w uri prov \<longrightarrow>
            Note_saveFromRemote cfg w n db uri prov = Some (r, db') \<longrightarrow> extends db db')"
proof (induction n)
  case 0
  show ?case by simp
next
  case (Suc n)
  have step: "extends a b" if "target_step cfg w n a b" for a b
  proof -
    from that consider "Notes b = Notes a"
      | t r where "t \<noteq> []" "Note_resolve cfg w n a (Some t) None = Some (r, b)"
      by (auto simp: target_step_def)
    then show ?thesis
    proof cases
      case 1
      then show ?thesis by (rule extends_same)
    next
      case 2
      from Suc wf_call_target [OF 2(1)] 2(2) show ?thesis by blast
    qed
  qed
  have save: "extends db db'"
    if wf: "wf_call w uri prov"
      and s: "Note_saveFromRemote cfg w (Suc n) db uri prov = Some (r, db')"
    for db uri prov r db'
  proof -
    from s obtain x d where deps: "saveFromRemote_deps cfg w n db uri prov = Some (x, d)"
      by (auto simp: save_Suc split: option.splits)
    from deps obtain db2 db3 where st: "Notes db2 = Notes db" "target_step cfg w n db2 db3"
      "target_step cfg w n db3 d" by (rule deps_steps)
    from step [OF st(2)] step [OF st(3)] have "extends db2 d" by (rule extends_trans)
    with st(1) have xd: "extends db d" by (simp add: extends_def note_uris_def stored_def)
    show ?thesis
    proof (cases x)
      case (Inl e)
      with s deps have "db' = d" by (simp add: save_Suc)
      with xd show ?thesis by simp
    next
      case (Inr args)
      obtain fs nt author emojis ms rid qid where
        args: "args = (fs, nt, author, emojis, ms, rid, qid)" by (cases args)
      from s deps Inr args
      have e: "saveFromRemote_end w d fs nt author emojis ms rid qid = (r, db')"
        by (simp add: save_Suc)
      from deps Inr args obtain db1 where
        b: "saveFromRemote_begin cfg w db uri prov = (Inr (fs, nt, author, emojis), db1)"
        by (auto elim: deps_Inr_cases)
      from end_extends [OF e begin_key(1,2) [OF b c wf] xd] show ?thesis .
    qed
  qed
  have "extends db db'"
    if wf: "wf_call w uri prov"
      and s: "Note_resolve cfg w (Suc n) db uri prov = Some (r, db')"
    for db uri prov r db'
    using s
  proof (cases rule: resolve_Suc_cases)
    case (found k f)
    then show ?thesis by (simp add: extends_same)
  next
    case (local u)
    then show ?thesis by (simp add: extends_same)
  next
    case remote
    with Suc wf show ?thesis by blast
  qed
  with save show ?case by blast
qed

subsection \<open>A successful resolution stores its uri\<close>

lemma resolve_extends:
  "consistent w \<Longrightarrow> wf_call w uri prov \<Longrightarrow>
     Note_resolve cfg w n db uri prov = Some (r, db') \<Longrightarrow> extends db db'"
  using resolve_extends_aux [of w cfg n] by blast

lemma save_extends:
  "consistent w \<Longrightarrow> wf_call w uri prov \<Longrightarrow>
     Note_saveFromRemote cfg w n db uri prov = Some (r, db') \<Longrightarrow> extends db db'"
  using resolve_extends_aux [of w cfg n] by blast

lemma target_step_extends:
  assumes "consistent w" and "target_step cfg w n a b"
  shows "extends a b"
proof -
  from assms(2) consider "Notes b = Notes a"
    | t r where "t \<noteq> []" "Note_resolve cfg w n a (Some t) None = Some (r, b)"
    by (auto simp: target_step_def)
  then show ?thesis
  proof cases
    case 1
    then show ?thesis by (rule extends_same)
  next
    case 2
    from resolve_extends [OF assms(1) wf_call_target [OF 2(1)] 2(2)] show ?thesis .
  qed
qed

lemma deps_extends:
  assumes c: "consistent w" and deps: "saveFromRemote_deps cfg w n db uri prov = Some (x, d)"
  shows "extends db d"
proof -
  from deps obtain db2 db3 where st: "Notes db2 = Notes db" "target_step cfg w n db2 db3"
    "target_step cfg w n db3 d" by (rule deps_steps)
  from target_step_extends [OF c st(2)] target_step_extends [OF c st(3)]
  have "extends db2 d" by (rule extends_trans)
  with st(1) show ?thesis by (simp add: extends_def note_uris_def stored_def)
qed

lemma save_Suc_Inr:
  assumes "Note_saveFromRemote cfg w n db uri prov = Some (Inr x, db')"
  obtains m fs nt author emojis ms rid qid d where "n = Suc m"
    "saveFromRemote_deps cfg w m db uri prov
       = Some (Inr (fs, nt, author, emojis, ms, rid, qid), d)"
    "saveFromRemote_end w d fs nt author emojis ms rid qid = (Inr x, db')"
proof (cases n)
  case 0
  with assms show ?thesis by simp
next
  case (Suc m)
  with assms obtain y d where deps: "saveFromRemote_deps cfg w m db uri prov = Some (y, d)"
    by (auto simp: save_Suc split: option.splits)
  show ?thesis
  proof (cases y)
    case (Inl e)
    with assms Suc deps show ?thesis by (simp add: save_Suc)
  next
    case (Inr args)
    obtain fs nt author emojis ms rid qid where
      args: "args = (fs, nt, author, emojis, ms, rid, qid)" by (cases args)
    from assms Suc deps Inr args
    have "saveFromRemote_end w d fs nt author emojis ms rid qid = (Inr x, db')"
      by (simp add: save_Suc)
    with Suc deps Inr args show ?thesis by (intro that) simp_all
  qed
qed

lemma stored_append:
  "note_uris db' = note_uris d @ new \<Longrightarrow> stored d t \<Longrightarrow> stored db' t"
  by (simp add: stored_def)

lemma end_stored_mono:
  assumes "saveFromRemote_end w d fs nt author emojis ms rid qid = (r, db')" and "stored d t"
  shows "stored db' t"
  using end_uris [OF assms(1)] assms(2)
  by (cases fs) (auto simp: stored_def)

lemma save_Inr_stored:
  assumes c: "consistent w" and wf: "wf_call w uri prov"
    and s: "Note_saveFromRemote cfg w n db uri prov = Some (Inr x, db')"
    and k: "lookup_key uri prov \<noteq> []"
  shows "stored db' (lookup_key uri prov)"
  using s
proof (cases rule: save_Suc_Inr)
  case (1 m fs nt author emojis ms rid qid d)
  let ?k = "lookup_key uri prov"
  from 1(2) obtain db1 where
    b: "saveFromRemote_begin cfg w db uri prov = (Inr (fs, nt, author, emojis), db1)"
    by (auto elim: deps_Inr_cases)
  note bk = begin_key [OF b c wf]
  note xd = deps_extends [OF c 1(2)]
  show ?thesis
  proof (cases fs)
    case None
    with end_uris [OF 1(3)] bk(2) k show ?thesis by (simp add: stored_def)
  next
    case (Some f)
    with bk(1) have "stored db ?k"
      using Note_fromSql_uri_None_iff [of db ?k "Desc note_id"] by auto
    with xd have "stored d ?k" by (rule stored_mono)
    with 1(3) show ?thesis by (rule end_stored_mono)
  qed
qed

lemma resolve_Inr_stored:
  assumes c: "consistent w"
    and s: "Note_resolve cfg w n db (Some t) None = Some (Inr x, db')"
    and t: "remote_uri cfg t"
  shows "stored db' t"
proof (cases n)
  case 0
  with s show ?thesis by simp
next
  case (Suc m)
  from s [unfolded Suc] show ?thesis
  proof (cases rule: resolve_Suc_cases)
    case (found k f)
    then show ?thesis by simp
  next
    case (local u)
    with t show ?thesis by (simp add: remote_uri_def)
  next
    case remote
    from t have wf: "wf_call w (Some t) None" by (simp add: wf_call_def remote_uri_def)
    from save_Inr_stored [OF c wf remote(3)] t show ?thesis
      by (simp add: lookup_key_def remote_uri_def)
  qed
qed

lemma deps_targets_stored:
  assumes c: "consistent w"
    and deps: "saveFromRemote_deps cfg w n db uri prov
                 = Some (Inr (fs, nt, author, emojis, ms, rid, qid), d)"
    and t: "p_replies_to nt = Some t \<or> p_quotes nt = Some t" and r: "remote_uri cfg t"
  shows "stored d t"
  using deps
proof (cases rule: deps_Inr_cases)
  case (1 db1 db2 db3)
  from r have ne: "t \<noteq> []" by (simp add: remote_uri_def)
  from t show ?thesis
  proof
    assume rt: "p_replies_to nt = Some t"
    with 1(3) ne obtain res where "Note_resolve cfg w n db2 (Some t) None = Some (Inr res, db3)"
      by (auto dest: resolve_target_Inr)
    from resolve_Inr_stored [OF c this r] have "stored db3 t" .
    moreover from resolve_target_step [OF 1(4)] c have "extends db3 d"
      by (simp add: target_step_extends)
    ultimately show ?thesis by (simp add: stored_mono)
  next
    assume qt: "p_quotes nt = Some t"
    with 1(4) ne obtain res where "Note_resolve cfg w n db3 (Some t) None = Some (Inr res, d)"
      by (auto dest: resolve_target_Inr)
    from resolve_Inr_stored [OF c this r] show ?thesis .
  qed
qed

subsection \<open>New rows are closed\<close>

lemma closed_mono:
  assumes "closed cfg w db x" and "\<And>t. stored db t \<Longrightarrow> stored db' t"
  shows "closed cfg w db' x"
  unfolding closed_def
proof (intro allI impI)
  fix p t
  assume "fetch_note w x = Inr (Some p)" "p_replies_to p = Some t \<or> p_quotes p = Some t"
    "remote_uri cfg t"
  with assms(1) have "stored db t" unfolding closed_def by blast
  then show "stored db' t" by (rule assms(2))
qed

lemma new_closed_same:
  assumes "Notes db' = Notes db"
  shows "new_closed cfg w db db'"
proof -
  from assms have "\<And>x. stored db' x = stored db x"
    unfolding stored_def note_uris_def by simp
  then show ?thesis unfolding new_closed_def by blast
qed

lemma new_closed_trans:
  assumes ab: "new_closed cfg w a b" and bc: "new_closed cfg w b c"
    and m: "\<And>t. stored b t \<Longrightarrow> stored c t"
  shows "new_closed cfg w a c"
  unfolding new_closed_def
proof (intro allI impI)
  fix x assume c: "stored c x" and a: "\<not> stored a x"
  show "closed cfg w c x"
  proof (cases "stored b x")
    case True
    with ab a have "closed cfg w b x" unfolding new_closed_def by blast
    then show ?thesis using m by (rule closed_mono)
  next
    case False
    with bc c show ?thesis unfolding new_closed_def by blast
  qed
qed

lemma new_closed_Notes_left:
  assumes "Notes a' = Notes a" and "new_closed cfg w a b"
  shows "new_closed cfg w a' b"
proof -
  from assms(1) have "\<And>x. stored a' x = stored a x"
    unfolding stored_def note_uris_def by simp
  with assms(2) show ?thesis unfolding new_closed_def by blast
qed

lemma closure_aux:
  assumes c: "consistent w"
  shows "(\<forall>db uri prov r db'. wf_call w uri prov \<longrightarrow>
            Note_resolve cfg w n db uri prov = Some (r, db') \<longrightarrow> new_closed cfg w db db')
       \<and> (\<forall>db uri prov r db'. wf_call w uri prov \<longrightarrow>
            Note_saveFromRemote cfg w n db uri prov = Some (r, db') \<longrightarrow> new_closed cfg w db db')"
proof (induction n)
  case 0
  show ?case by simp
next
  case (Suc n)
  have step: "new_closed cfg w a b" if "target_step cfg w n a b" for a b
  proof -
    from that consider "Notes b = Notes a"
      | t r where "t \<noteq> []" "Note_resolve cfg w n a (Some t) None = Some (r, b)"
      by (auto simp: target_step_def)
    then show ?thesis
    proof cases
      case 1
      then show ?thesis by (rule new_closed_same)
    next
      case 2
      from Suc wf_call_target [OF 2(1)] 2(2) show ?thesis by blast
    qed
  qed
  have save: "new_closed cfg w db db'"
    if wf: "wf_call w uri prov"
      and s: "Note_saveFromRemote cfg w (Suc n) db uri prov = Some (r, db')"
    for db uri prov r db'
  proof -
    from s obtain x d where deps: "saveFromRemote_deps cfg w n db uri prov = Some (x, d)"
      by (auto simp: save_Suc split: option.splits)
    from deps obtain db2 db3 where st: "Notes db2 = Notes db" "target_step cfg w n db2 db3"
      "target_step cfg w n db3 d" by (rule deps_steps)
    from target_step_extends [OF c st(3)] have "\<And>t. stored db3 t \<Longrightarrow> stored d t"
      by (simp add: stored_mono)
    with step [OF st(2)] step [OF st(3)] have "new_closed cfg w db2 d"
      by (rule new_closed_trans)
    with st(1) have nd: "new_closed cfg w db d" by (metis new_closed_Notes_left)
    show ?thesis
    proof (cases x)
      case (Inl e)
      with s deps have "db' = d" by (simp add: save_Suc)
      with nd show ?thesis by simp
    next
      case (Inr args)
      obtain fs nt author emojis ms rid qid where
        args: "args = (fs, nt, author, emojis, ms, rid, qid)" by (cases args)
      from s deps Inr args
      have e: "saveFromRemote_end w d fs nt author emojis ms rid qid = (r, db')"
        by (simp add: save_Suc)
      from deps Inr args have deps': "saveFromRemote_deps cfg w n db uri prov
          = Some (Inr (fs, nt, author, emojis, ms, rid, qid), d)" by simp
      then obtain db1 where
        b: "saveFromRemote_begin cfg w db uri prov = (Inr (fs, nt, author, emojis), db1)"
        by (auto elim: deps_Inr_cases)
      note bk = begin_key [OF b c wf]
      have mono: "\<And>t. stored d t \<Longrightarrow> stored db' t" using e by (rule end_stored_mono)
      have "new_closed cfg w d db'"
        unfolding new_closed_def
      proof (intro allI impI)
        fix x assume x: "stored db' x" "\<not> stored d x"
        have xk: "x = lookup_key uri prov"
        proof (cases fs)
          case (Some f)
          with end_uris [OF e] have "note_uris db' = note_uris d" by simp
          with x show ?thesis by (simp add: stored_def)
        next
          case None
          with end_uris [OF e] have "note_uris db' = note_uris d
            \<or> note_uris db' = note_uris d @ [if p_uri nt \<noteq> [] then Some (p_uri nt) else None]"
            by auto
          then show ?thesis
          proof
            assume "note_uris db' = note_uris d"
            with x show ?thesis by (simp add: stored_def)
          next
            assume "note_uris db' = note_uris d @ [if p_uri nt \<noteq> [] then Some (p_uri nt) else None]"
            with x have "Some x = (if p_uri nt \<noteq> [] then Some (p_uri nt) else None)"
              by (simp add: stored_def)
            with bk(2) show ?thesis by (simp split: if_splits)
          qed
        qed
        show "closed cfg w db' x"
          unfolding closed_def
        proof (intro allI impI)
          fix p t
          assume p: "fetch_note w x = Inr (Some p)"
            and t: "p_replies_to p = Some t \<or> p_quotes p = Some t" and r: "remote_uri cfg t"
          from p xk bk(3) have "p = nt" by simp
          with deps_targets_stored [OF c deps' _ r] t have "stored d t" by simp
          then show "stored db' t" by (rule mono)
        qed
      qed
      with nd show ?thesis using mono by (rule new_closed_trans)
    qed
  qed
  have "new_closed cfg w db db'"
    if wf: "wf_call w uri prov"
      and s: "Note_resolve cfg w (Suc n) db uri prov = Some (r, db')"
    for db uri prov r db'
    using s
  proof (cases rule: resolve_Suc_cases)
    case (found k f)
    then show ?thesis by (simp add: new_closed_same)
  next
    case (local u)
    then show ?thesis by (simp add: new_closed_same)
  next
    case remote
    with Suc wf show ?thesis by blast
  qed
  with save show ?case by blast
qed

lemma target_step_new_closed:
  assumes "consistent w" and "target_step cfg w n a b"
  shows "new_closed cfg w a b"
proof -
  from assms(2) consider "Notes b = Notes a"
    | t r where "t \<noteq> []" "Note_resolve cfg w n a (Some t) None = Some (r, b)"
    by (auto simp: target_step_def)
  then show ?thesis
  proof cases
    case 1
    then show ?thesis by (rule new_closed_same)
  next
    case 2
    from closure_aux [OF assms(1), of cfg n] wf_call_target [OF 2(1)] 2(2) show ?thesis by blast
  qed
qed

lemma deps_new_closed:
  assumes c: "consistent w" and deps: "saveFromRemote_deps cfg w n db uri prov = Some (x, d)"
  shows "new_closed cfg w db d"
proof -
  from deps obtain db2 db3 where st: "Notes db2 = Notes db" "target_step cfg w n db2 db3"
    "target_step cfg w n db3 d" by (rule deps_steps)
  from target_step_extends [OF c st(3)] have "\<And>t. stored db3 t \<Longrightarrow> stored d t"
    by (simp add: stored_mono)
  with target_step_new_closed [OF c st(2)] target_step_new_closed [OF c st(3)]
  have "new_closed cfg w db2 d" by (rule new_closed_trans)
  with st(1) show ?thesis by (metis new_closed_Notes_left)
qed

subsection \<open>No resolution stores the uri of a resolution in progress\<close>

lemma end_new_uri:
  assumes e: "saveFromRemote_end w d fs nt author emojis ms rid qid = (r, db')"
    and x: "stored db' x" "\<not> stored d x"
  shows "x = p_uri nt \<and> fs = None"
proof (cases fs)
  case (Some f)
  with end_uris [OF e] have "note_uris db' = note_uris d" by simp
  with x show ?thesis by (simp add: stored_def)
next
  case None
  with end_uris [OF e] have "note_uris db' = note_uris d
    \<or> note_uris db' = note_uris d @ [if p_uri nt \<noteq> [] then Some (p_uri nt) else None]"
    by auto
  then show ?thesis
  proof
    assume "note_uris db' = note_uris d"
    with x show ?thesis by (simp add: stored_def)
  next
    assume "note_uris db' = note_uris d @ [if p_uri nt \<noteq> [] then Some (p_uri nt) else None]"
    with x have "Some x = (if p_uri nt \<noteq> [] then Some (p_uri nt) else None)"
      by (simp add: stored_def)
    with None show ?thesis by (simp split: if_splits)
  qed
qed

lemma no_self_insert_aux:
  assumes c: "consistent w"
  shows "\<forall>db uri prov args d. wf_call w uri prov \<longrightarrow>
           saveFromRemote_deps cfg w n db uri prov = Some (Inr args, d) \<longrightarrow>
           \<not> stored db (lookup_key uri prov) \<longrightarrow> \<not> stored d (lookup_key uri prov)"
proof (induction n rule: less_induct)
  case (less n)
  show ?case
  proof (intro allI impI)
    fix db uri prov args d
    assume wf: "wf_call w uri prov"
      and deps: "saveFromRemote_deps cfg w n db uri prov = Some (Inr args, d)"
      and ns: "\<not> stored db (lookup_key uri prov)"
    let ?k = "lookup_key uri prov"
    obtain fs nt author emojis ms rid qid where
      args: "args = (fs, nt, author, emojis, ms, rid, qid)" by (cases args)
    from deps [unfolded args] obtain db1 db2 db3 where
      b: "saveFromRemote_begin cfg w db uri prov = (Inr (fs, nt, author, emojis), db1)"
      and m: "resolve_mentions cfg w db1 (case p_mentions nt of None \<Rightarrow> [] | Some ms \<Rightarrow> ms)
                = (Inr ms, db2)"
      and rt: "resolve_target cfg w n db2 (p_replies_to nt) = Some (Inr rid, db3)"
      and qt: "resolve_target cfg w n db3 (p_quotes nt) = Some (Inr qid, d)"
      by (rule deps_Inr_cases)
    note bk = begin_key [OF b c wf]
    have keep: "\<not> stored b' ?k"
      if tgt: "tgt = p_replies_to nt \<or> tgt = p_quotes nt"
        and res: "resolve_target cfg w n a tgt = Some (Inr i, b')"
        and na: "\<not> stored a ?k"
      for tgt a i b'
    proof
      assume sb: "stored b' ?k"
      have "truthy_str tgt"
      proof (rule ccontr)
        assume "\<not> truthy_str tgt"
        with res have "b' = a" by (simp add: resolve_target_def)
        with sb na show False by simp
      qed
      then obtain t where t: "tgt = Some t" "t \<noteq> []"
        by (auto simp: truthy_str_def split: option.splits)
      from res t obtain x where
        x: "Note_resolve cfg w n a (Some t) None = Some (Inr x, b')"
        by (auto dest: resolve_target_Inr)
      then obtain m where n: "n = Suc m" by (cases n) simp_all
      from x [unfolded n] show False
      proof (cases rule: resolve_Suc_cases)
        case (found k f)
        with sb na show ?thesis by simp
      next
        case (local u)
        with sb na show ?thesis by simp
      next
        case remote
        from remote(2) t have rem: "remote_uri cfg t" by (simp add: remote_uri_def)
        have wft: "wf_call w (Some t) None" using t by (simp add: wf_call_def)
        from remote(1) t have nt': "\<not> stored a t" by simp
        from remote(3) obtain m' fs' nt' author' emojis' ms' rid' qid' d' where
          m': "m = Suc m'"
          and deps': "saveFromRemote_deps cfg w m' a (Some t) None
                        = Some (Inr (fs', nt', author', emojis', ms', rid', qid'), d')"
          and e': "saveFromRemote_end w d' fs' nt' author' emojis' ms' rid' qid' = (Inr x, b')"
          by (rule save_Suc_Inr)
        have "m' < n" using n m' by simp
        have lk: "lookup_key (Some t) None = t" by (simp add: lookup_key_def)
        from less [OF \<open>m' < n\<close>, rule_format, OF wft deps'] nt'
        have nd': "\<not> stored d' t" unfolding lk by blast
        from tgt t have tk: "p_replies_to nt = Some t \<or> p_quotes nt = Some t" by auto
        show False
        proof (cases "stored d' ?k")
          case True
          with deps_new_closed [OF c deps'] na have "closed cfg w d' ?k"
            by (simp add: new_closed_def)
          with bk(3) tk rem have "stored d' t" unfolding closed_def by blast
          with nd' show False by simp
        next
          case False
          with end_new_uri [OF e' sb] have kt': "?k = p_uri nt'" by simp
          from deps' obtain a1 where
            b': "saveFromRemote_begin cfg w a (Some t) None
                   = (Inr (fs', nt', author', emojis'), a1)"
            by (auto elim: deps_Inr_cases)
          note bk' = begin_key [OF b' c wft]
          from bk'(2) kt' have kt: "?k = t" by (simp add: lookup_key_def)
          with bk'(3) bk(3) have "nt' = nt" by (simp add: lookup_key_def)
          with deps_targets_stored [OF c deps' _ rem] tk have "stored d' t" by simp
          with nd' show False by simp
        qed
      qed
    qed
    from Notes_begin [OF b] Notes_resolve_mentions [OF m] have "Notes db2 = Notes db" by simp
    with ns have "\<not> stored db2 ?k" by (simp add: stored_def note_uris_def)
    with rt have "\<not> stored db3 ?k" by (intro keep [of "p_replies_to nt" db2 rid db3]) simp_all
    with qt show "\<not> stored d ?k" by (intro keep [of "p_quotes nt" db3 qid d]) simp_all
  qed
qed

lemma no_self_insert:
  assumes "consistent w" and "wf_call w uri prov"
    and "saveFromRemote_deps cfg w n db uri prov = Some (Inr args, d)"
    and "\<not> stored db (lookup_key uri prov)"
  shows "\<not> stored d (lookup_key uri prov)"
  using no_self_insert_aux [OF assms(1), of cfg n] assms(2-4) by blast

subsection \<open>One row per uri\<close>

lemma length_rows_with_uri:
  "length (rows_with_uri db k) = length (filter (\<lambda>u. u = Some k) (note_uris db))"
  by (simp add: rows_with_uri_def note_uris_def filter_map comp_def)

lemma rows_with_uri_not_stored: "\<not> stored db k \<Longrightarrow> rows_with_uri db k = []"
  by (force simp: rows_with_uri_def stored_def note_uris_def filter_empty_conv)

lemma extends_count:
  assumes "extends db db'" and "stored db k"
  shows "length (rows_with_uri db' k) = length (rows_with_uri db k)"
proof -
  from assms obtain new where new: "note_uris db' = note_uris db @ new"
    "Some k \<notin> set new" by (auto simp: extends_def)
  from new(2) have "filter (\<lambda>u. u = Some k) new = []" by (auto simp: filter_empty_conv)
  with new(1) show ?thesis by (simp add: length_rows_with_uri)
qed

lemma save_inserts_once:
  assumes c: "consistent w" and wf: "wf_call w uri prov"
    and k: "lookup_key uri prov \<noteq> []" and ns: "\<not> stored db (lookup_key uri prov)"
    and s: "Note_saveFromRemote cfg w n db uri prov = Some (Inr x, db1)"
  shows "length (rows_with_uri db1 (lookup_key uri prov)) = 1"
  using s
proof (cases rule: save_Suc_Inr)
  case (1 m fs nt author emojis ms rid qid d)
  let ?k = "lookup_key uri prov"
  from 1(2) obtain a1 where
    b: "saveFromRemote_begin cfg w db uri prov = (Inr (fs, nt, author, emojis), a1)"
    by (auto elim: deps_Inr_cases)
  note bk = begin_key [OF b c wf]
  from bk(1) ns have fs: "fs = None" by (simp add: Note_fromSql_uri_None_iff)
  from no_self_insert [OF c wf 1(2) ns] have nd: "\<not> stored d ?k" .
  from end_uris [OF 1(3)] fs bk(2) k
  have "note_uris db1 = note_uris d @ [Some ?k]" by simp
  moreover from nd have "filter (\<lambda>u. u = Some ?k) (note_uris d) = []"
    by (auto simp: stored_def filter_empty_conv)
  ultimately show ?thesis by (simp add: length_rows_with_uri)
qed

lemma resolve_stored:
  assumes "stored db k" and "k \<noteq> []"
  shows "\<exists>f. status f \<in> set (rows_with_uri db k)
           \<and> Note_resolve cfg w (Suc m) db (Some k) prov = Some (Inr (Some f), db)"
proof -
  from assms(1) obtain f where
    f: "Note_fromSql db (\<lambda>r. note_uri r = Some k) (Desc note_id) = Some f"
    using Note_fromSql_uri_None_iff [of db k "Desc note_id"] by auto
  from Note_fromSql_SomeD [OF f] have "status f \<in> set (rows_with_uri db k)"
    by (simp add: rows_with_uri_def)
  with f assms(2) show ?thesis by (auto simp: truthy_str_def)
qed

lemma resolve_remote_is_save:
  assumes "Note_resolve cfg w n db uri prov = Some (r, db')"
    and "\<forall>k. uri = Some k \<longrightarrow> remote_uri cfg k \<and> \<not> stored db k"
  obtains m where "n = Suc m" "Note_saveFromRemote cfg w m db uri prov = Some (r, db')"
proof (cases n)
  case 0
  with assms show ?thesis by simp
next
  case (Suc m)
  from assms(1) [unfolded Suc] show ?thesis
  proof (cases rule: resolve_Suc_cases)
    case (found k f)
    with assms(2) show ?thesis by simp
  next
    case (local u)
    with assms(2) show ?thesis by (simp add: remote_uri_def)
  next
    case remote
    with Suc show ?thesis by (intro that)
  qed
qed

subsection \<open>Rows keep their place, id and uri\<close>

lemma keeps_notes_same: "Notes db' = Notes db \<Longrightarrow> keeps_notes db db'"
  by (simp add: keeps_notes_def note_keys_def)

lemma keeps_notes_trans: "keeps_notes a b \<Longrightarrow> keeps_notes b c \<Longrightarrow> keeps_notes a c"
  unfolding keeps_notes_def by (rule prefix_order.trans)

lemma note_keys_eq:
  assumes "map note_uri (Notes db') = map note_uri (Notes db)"
    and "map note_id (Notes db') = map note_id (Notes db)"
  shows "note_keys db' = note_keys db"
proof -
  have z: "map (\<lambda>r. (note_id r, note_uri r)) xs = zip (map note_id xs) (map note_uri xs)"
    for xs :: "note_row list"
    by (induction xs) simp_all
  have "note_keys db' = zip (map note_id (Notes db')) (map note_uri (Notes db'))"
    unfolding note_keys_def by (rule z)
  also have "\<dots> = zip (map note_id (Notes db)) (map note_uri (Notes db))"
    by (simp only: assms)
  also have "\<dots> = note_keys db"
    unfolding note_keys_def by (rule z [symmetric])
  finally show ?thesis .
qed

lemma end_keeps:
  assumes e: "saveFromRemote_end w d fs nt author emojis ms rid qid = (r, db')"
  shows "keeps_notes d db'"
proof (cases fs)
  case (Some f)
  with e have "Note_updateFromData w d f
      (Some (case p_content nt of None \<Rightarrow> [(''text/plain'', [])] | Some c \<Rightarrow> c))
      (p_visibility nt) (case p_is_sensitive nt of None \<Rightarrow> False | Some b \<Rightarrow> b)
      (case p_subject nt of None \<Rightarrow> [] | Some s \<Rightarrow> s) emojis ms rid qid = (r, db')"
    by (simp add: saveFromRemote_end_def Let_def)
  from updateFromData_frame [OF this] have "note_keys db' = note_keys d"
    by (intro note_keys_eq) simp_all
  then show ?thesis by (simp add: keeps_notes_def)
next
  case None
  obtain r0 d0 where f: "Note_fromData w d author
      (case p_content nt of None \<Rightarrow> [(''text/plain'', [])] | Some c \<Rightarrow> c) (p_visibility nt)
      (case p_is_sensitive nt of None \<Rightarrow> False | Some b \<Rightarrow> b)
      (case p_subject nt of None \<Rightarrow> [] | Some s \<Rightarrow> s) emojis (Some (p_uri nt)) ms rid qid
      = (r0, d0)"
    by (cases "Note_fromData w d author
      (case p_content nt of None \<Rightarrow> [(''text/plain'', [])] | Some c \<Rightarrow> c) (p_visibility nt)
      (case p_is_sensitive nt of None \<Rightarrow> False | Some b \<Rightarrow> b)
      (case p_subject nt of None \<Rightarrow> [] | Some s \<Rightarrow> s) emojis (Some (p_uri nt)) ms rid qid")
  with e None have d0: "d0 = db'"
    by (auto simp: saveFromRemote_end_def Let_def split: sum.splits option.splits)
  from fromData_cases [OF f] d0 show ?thesis
    by (auto simp: keeps_notes_def note_keys_def)
qed

lemma resolve_keeps_aux:
  "(\<forall>db uri prov r db'.
      Note_resolve cfg w n db uri prov = Some (r, db') \<longrightarrow> keeps_notes db db')
   \<and> (\<forall>db uri prov r db'.
      Note_saveFromRemote cfg w n db uri prov = Some (r, db') \<longrightarrow> keeps_notes db db')"
proof (induction n)
  case 0
  show ?case by simp
next
  case (Suc n)
  have step: "keeps_notes a b" if "target_step cfg w n a b" for a b
  proof -
    from that consider "Notes b = Notes a"
      | t r where "t \<noteq> []" "Note_resolve cfg w n a (Some t) None = Some (r, b)"
      by (auto simp: target_step_def)
    then show ?thesis
    proof cases
      case 1
      then show ?thesis by (rule keeps_notes_same)
    next
      case 2
      from Suc 2(2) show ?thesis by blast
    qed
  qed
  have save: "keeps_notes db db'"
    if s: "Note_saveFromRemote cfg w (Suc n) db uri prov = Some (r, db')"
    for db uri prov r db'
  proof -
    from s obtain x d where deps: "saveFromRemote_deps cfg w n db uri prov = Some (x, d)"
      by (auto simp: save_Suc split: option.splits)
    from deps obtain db2 db3 where st: "Notes db2 = Notes db" "target_step cfg w n db2 db3"
      "target_step cfg w n db3 d" by (rule deps_steps)
    from step [OF st(2)] step [OF st(3)] have "keeps_notes db2 d" by (rule keeps_notes_trans)
    with st(1) have kd: "keeps_notes db d" by (simp add: keeps_notes_def note_keys_def)
    show ?thesis
    proof (cases x)
      case (Inl e)
      with s deps have "db' = d" by (simp add: save_Suc)
      with kd show ?thesis by simp
    next
      case (Inr args)
      obtain fs nt author emojis ms rid qid where
        args: "args = (fs, nt, author, emojis, ms, rid, qid)" by (cases args)
      from s deps Inr args
      have "saveFromRemote_end w d fs nt author emojis ms rid qid = (r, db')"
        by (simp add: save_Suc)
      from kd end_keeps [OF this] show ?thesis by (rule keeps_notes_trans)
    qed
  qed
  have "keeps_notes db db'"
    if s: "Note_resolve cfg w (Suc n) db uri prov = Some (r, db')"
    for db uri prov r db'
    using s
  proof (cases rule: resolve_Suc_cases)
    case (found k f)
    then show ?thesis by (simp add: keeps_notes_same)
  next
    case (local u)
    then show ?thesis by (simp add: keeps_notes_same)
  next
    case remote
    with Suc show ?thesis by blast
  qed
  with save show ?case by blast
qed

lemma deps_keeps:
  assumes deps: "saveFromRemote_deps cfg w n db uri prov = Some (x, d)"
  shows "keeps_notes db d"
proof -
  have step: "keeps_notes a b" if "target_step cfg w n a b" for a b
  proof -
    from that consider "Notes b = Notes a"
      | t r where "t \<noteq> []" "Note_resolve cfg w n a (Some t) None = Some (r, b)"
      by (auto simp: target_step_def)
    then show ?thesis
    proof cases
      case 1
      then show ?thesis by (rule keeps_notes_same)
    next
      case 2
      from resolve_keeps_aux [of cfg w n] 2(2) show ?thesis by blast
    qed
  qed
  from deps obtain db2 db3 where st: "Notes db2 = Notes db" "target_step cfg w n db2 db3"
    "target_step cfg w n db3 d" by (rule deps_steps)
  from step [OF st(2)] step [OF st(3)] have "keeps_notes db2 d" by (rule keeps_notes_trans)
  with st(1) show ?thesis by (simp add: keeps_notes_def note_keys_def)
qed

lemma updateFromData_Inr_rows:
  assumes "Note_updateFromData w d this (Some c) v s sp em ms rid qid = (Inr z, db')"
  shows "\<exists>g. Notes db' = map (\<lambda>r. if note_id r = note_id (status this) then g r else r) (Notes d)
           \<and> (\<forall>r. note_uri (g r) = note_uri r \<and> note_id (g r) = note_id r
                  \<and> visibility (g r) = v \<and> sensitive (g r) = s \<and> spoilerText (g r) = sp)"
proof -
  from assms obtain h where h: "contentToHtml w c ms = Inr h"
    by (cases "contentToHtml w c ms") (simp_all add: Note_updateFromData_def)
  let ?g = "\<lambda>r. r\<lparr>content := h, visibility := v, sensitive := s, spoilerText := sp,
                    replyId := (case rid of None \<Rightarrow> replyId r | Some i \<Rightarrow> Some i),
                    quotingId := (case qid of None \<Rightarrow> quotingId r | Some i \<Rightarrow> Some i)\<rparr>"
  from assms h
  have "Notes db' = map (\<lambda>r. if note_id r = note_id (status this) then ?g r else r) (Notes d)"
    by (auto simp: Note_updateFromData_def Let_def
          split: sum.splits prod.splits list.splits dest!: Notes_connect_mentions)
  then show ?thesis by (intro exI [of _ ?g]) simp
qed

subsection \<open>Resolving twice\<close>

lemma payload_second_updates:
  assumes c: "consistent w" and sv: "served w p" and u: "p_uri p = u" "u \<noteq> []"
    and row: "rows_with_uri db1 u = [row]"
    and s: "Note_saveFromRemote cfg w m db1 None (Some p) = Some (Inr z, db2)"
  shows "\<exists>row'. rows_with_uri db2 u = [row'] \<and> note_id row' = note_id row
           \<and> visibility row' = p_visibility p
           \<and> sensitive row' = (case p_is_sensitive p of None \<Rightarrow> False | Some b \<Rightarrow> b)
           \<and> spoilerText row' = (case p_subject p of None \<Rightarrow> [] | Some s \<Rightarrow> s)"
  using s
proof (cases rule: save_Suc_Inr)
  case (1 m' fs nt author emojis ms rid qid d)
  have wf: "wf_call w None (Some p)" using sv by (simp add: wf_call_def)
  have lk: "lookup_key None (Some p) = u" using u by (simp add: lookup_key_def)
  from 1(2) obtain a1 where
    b: "saveFromRemote_begin cfg w db1 None (Some p) = (Inr (fs, nt, author, emojis), a1)"
    by (auto elim: deps_Inr_cases)
  from begin_Inr [OF b] have nt: "nt = p" by (simp add: truthy_str_def)
  from begin_key(1) [OF b c wf]
  have fs: "fs = Note_fromSql db1 (\<lambda>r. note_uri r = Some u) (Desc note_id)"
    unfolding lk .
  from row have st: "stored db1 u"
    using rows_with_uri_not_stored [of db1 u] by auto
  with fs obtain f where f: "fs = Some f"
    "Note_fromSql db1 (\<lambda>r. note_uri r = Some u) (Desc note_id) = Some f"
    using Note_fromSql_uri_None_iff [of db1 u "Desc note_id"] by auto
  from Note_fromSql_SomeD [OF f(2)] have "status f \<in> set (rows_with_uri db1 u)"
    by (simp add: rows_with_uri_def)
  with row have sf: "status f = row" by simp
  from Note_fromSql_SomeD [OF f(2)] sf have rin: "row \<in> set (Notes db1)" by simp
  from deps_extends [OF c 1(2)] st row have "length (rows_with_uri d u) = 1"
    by (simp add: extends_count)
  then obtain rd where rd: "rows_with_uri d u = [rd]"
    by (cases "rows_with_uri d u") simp_all
  have "row \<in> set (rows_with_uri db1 u)" by (simp add: row)
  then have "note_uri row = Some u" by (simp add: rows_with_uri_def)
  with rin have "(note_id row, Some u) \<in> set (note_keys db1)"
    by (force simp: note_keys_def)
  moreover from deps_keeps [OF 1(2)] have "set (note_keys db1) \<subseteq> set (note_keys d)"
    unfolding keeps_notes_def by (rule set_mono_prefix)
  ultimately have "(note_id row, Some u) \<in> set (note_keys d)" by blast
  then obtain r where r: "r \<in> set (Notes d)" "note_id r = note_id row" "note_uri r = Some u"
    by (auto simp: note_keys_def)
  then have "r \<in> set (rows_with_uri d u)" by (simp add: rows_with_uri_def)
  with rd have rid: "note_id rd = note_id row" using r(2) by simp
  from 1(3) f(1) nt
  have "Note_updateFromData w d f
      (Some (case p_content p of None \<Rightarrow> [(''text/plain'', [])] | Some c \<Rightarrow> c))
      (p_visibility p) (case p_is_sensitive p of None \<Rightarrow> False | Some b \<Rightarrow> b)
      (case p_subject p of None \<Rightarrow> [] | Some s \<Rightarrow> s) emojis ms rid qid = (Inr z, db2)"
    by (simp add: saveFromRemote_end_def Let_def)
  from updateFromData_Inr_rows [OF this] obtain g where
    g: "Notes db2 = map (\<lambda>r. if note_id r = note_id (status f) then g r else r) (Notes d)"
    and gp: "\<And>r. note_uri (g r) = note_uri r" "\<And>r. note_id (g r) = note_id r"
      "\<And>r. visibility (g r) = p_visibility p"
      "\<And>r. sensitive (g r) = (case p_is_sensitive p of None \<Rightarrow> False | Some b \<Rightarrow> b)"
      "\<And>r. spoilerText (g r) = (case p_subject p of None \<Rightarrow> [] | Some s \<Rightarrow> s)"
    by blast
  let ?G = "\<lambda>r. if note_id r = note_id (status f) then g r else r"
  have "(\<lambda>r. note_uri r = Some u) \<circ> ?G = (\<lambda>r. note_uri r = Some u)"
    by (auto simp: gp(1) fun_eq_iff)
  then have "rows_with_uri db2 u = map ?G (rows_with_uri d u)"
    by (simp add: rows_with_uri_def g filter_map)
  with rd rid sf have "rows_with_uri db2 u = [g rd]" by simp
  with gp rid show ?thesis by simp
qed

lemma resolve_twice_aux_uri:
  assumes c: "consistent w" and r: "remote_uri cfg u" and ns: "\<not> stored db u"
    and first: "Note_resolve cfg w n db (Some u) None = Some (Inr x, db1)"
  shows "length (rows_with_uri db1 u) = 1
       \<and> (\<exists>f. status f \<in> set (rows_with_uri db1 u)
             \<and> Note_resolve cfg w (Suc m) db1 (Some u) None = Some (Inr (Some f), db1))"
proof -
  from r have ne: "u \<noteq> []" by (simp add: remote_uri_def)
  have wf: "wf_call w (Some u) None" using ne by (simp add: wf_call_def)
  have lk: "lookup_key (Some u) None = u" by (simp add: lookup_key_def)
  from first r ns obtain n' where
    "Note_saveFromRemote cfg w n' db (Some u) None = Some (Inr x, db1)"
    by (auto elim: resolve_remote_is_save)
  from save_inserts_once [OF c wf _ _ this] ne ns
  have one: "length (rows_with_uri db1 u) = 1" unfolding lk by simp
  then have "stored db1 u" using rows_with_uri_not_stored [of db1 u] by fastforce
  from resolve_stored [OF this ne] one show ?thesis by blast
qed

lemma resolve_twice_aux_payload:
  assumes c: "consistent w" and r: "remote_uri cfg u" and ns: "\<not> stored db u"
    and sv: "served w p" and pu: "p_uri p = u"
    and first: "Note_resolve cfg w n db None (Some p) = Some (Inr x, db1)"
    and second: "Note_resolve cfg w m db1 None (Some p) = Some (y, db2)"
  shows "\<exists>row. rows_with_uri db1 u = [row] \<and> length (rows_with_uri db2 u) = 1
           \<and> (\<forall>z. y = Inr z \<longrightarrow>
                (\<exists>row'. rows_with_uri db2 u = [row'] \<and> note_id row' = note_id row
                   \<and> visibility row' = p_visibility p
                   \<and> sensitive row' = (case p_is_sensitive p of None \<Rightarrow> False | Some b \<Rightarrow> b)
                   \<and> spoilerText row' = (case p_subject p of None \<Rightarrow> [] | Some s \<Rightarrow> s)))"
proof -
  from r have ne: "u \<noteq> []" by (simp add: remote_uri_def)
  have wf: "wf_call w None (Some p)" using sv by (simp add: wf_call_def)
  have lk: "lookup_key None (Some p) = u" using pu by (simp add: lookup_key_def)
  from first obtain n' where
    "Note_saveFromRemote cfg w n' db None (Some p) = Some (Inr x, db1)"
    by (auto elim: resolve_remote_is_save)
  from save_inserts_once [OF c wf _ _ this] ne ns
  have one: "length (rows_with_uri db1 u) = 1" unfolding lk by simp
  then obtain row where row: "rows_with_uri db1 u = [row]"
    by (cases "rows_with_uri db1 u") simp_all
  then have st: "stored db1 u" using rows_with_uri_not_stored [of db1 u] by auto
  from resolve_extends [OF c wf second] st one
  have two: "length (rows_with_uri db2 u) = 1" by (simp add: extends_count)
  have "\<exists>row'. rows_with_uri db2 u = [row'] \<and> note_id row' = note_id row
          \<and> visibility row' = p_visibility p
          \<and> sensitive row' = (case p_is_sensitive p of None \<Rightarrow> False | Some b \<Rightarrow> b)
          \<and> spoilerText row' = (case p_subject p of None \<Rightarrow> [] | Some s \<Rightarrow> s)"
    if "y = Inr z" for z
  proof -
    from second that obtain m' where
      "Note_saveFromRemote cfg w m' db1 None (Some p) = Some (Inr z, db2)"
      by (auto elim: resolve_remote_is_save)
    from payload_second_updates [OF c sv pu ne row this] show ?thesis .
  qed
  with row two show ?thesis by blast
qed

section \<open>Resolving a note twice\<close>

text \<open>
  By URI, a second resolution is answered from the store: it finds the row and returns
  it, without fetching and without writing. After bob's note was resolved from the
  first world, resolving its URI again leaves the store as it is, in the same world
  and also in the world where the remote now serves the edited, private note.
\<close>

lemma resolve_by_uri_twice:
  "map (\<lambda>r. (note_uri r, visibility r, content r))
       (rows_with_uri resolved_by_uri ''https://remote.example/notes/2'')
     = [(Some ''https://remote.example/notes/2'', Public, ''second'')]
   \<and> fetch_note edited_world ''https://remote.example/notes/2'' = Inr (Some edited_payload)
   \<and> p_visibility edited_payload = Private
   \<and> store_after (Note_resolve example_config edited_world 4 resolved_by_uri
         (Some ''https://remote.example/notes/2'') None) = resolved_by_uri
   \<and> store_after (Note_resolve example_config fed_world 4 resolved_by_uri
         (Some ''https://remote.example/notes/2'') None) = resolved_by_uri
   \<and> fetched resolved_by_uri
     = [''https://remote.example/notes/2'', ''https://remote.example/notes/1'']"
  by code_simp

text \<open>
  Where the claim holds. Let the remote be consistent, \<open>u\<close> a remote URI that is not
  stored.

  If resolving \<open>u\<close> succeeds, exactly one row is stored under \<open>u\<close> afterwards, and
  every further resolution of \<open>u\<close> returns that row and leaves the store as it is.

  If resolving the payload that the remote serves at \<open>u\<close> succeeds, exactly one row is
  stored under \<open>u\<close> afterwards; resolving the same payload again, whatever the outcome,
  leaves exactly one row under \<open>u\<close>, and when it succeeds that row is the old one (by
  its id) with the visibility, sensitivity and subject of the payload.
\<close>

lemma resolve_twice_one_row:
  assumes "consistent w" and "remote_uri cfg u" and "\<not> stored db u"
  shows "(Note_resolve cfg w n db (Some u) None = Some (Inr x, db1) \<longrightarrow>
            length (rows_with_uri db1 u) = 1
          \<and> (\<exists>f. status f \<in> set (rows_with_uri db1 u)
                \<and> Note_resolve cfg w (Suc m) db1 (Some u) None = Some (Inr (Some f), db1)))
       \<and> (served w p \<and> p_uri p = u
          \<and> Note_resolve cfg w n db None (Some p) = Some (Inr x', db1')
          \<and> Note_resolve cfg w m db1' None (Some p) = Some (y, db2) \<longrightarrow>
            (\<exists>row. rows_with_uri db1' u = [row] \<and> length (rows_with_uri db2 u) = 1
               \<and> (\<forall>z. y = Inr z \<longrightarrow>
                    (\<exists>row'. rows_with_uri db2 u = [row'] \<and> note_id row' = note_id row
                       \<and> visibility row' = p_visibility p
                       \<and> sensitive row' = (case p_is_sensitive p of None \<Rightarrow> False | Some b \<Rightarrow> b)
                       \<and> spoilerText row' = (case p_subject p of None \<Rightarrow> [] | Some s \<Rightarrow> s)))))"
proof (intro conjI impI)
  assume "Note_resolve cfg w n db (Some u) None = Some (Inr x, db1)"
  from resolve_twice_aux_uri [OF assms this]
  show "length (rows_with_uri db1 u) = 1"
    and "\<exists>f. status f \<in> set (rows_with_uri db1 u)
           \<and> Note_resolve cfg w (Suc m) db1 (Some u) None = Some (Inr (Some f), db1)"
    by simp_all
next
  assume a: "served w p \<and> p_uri p = u
    \<and> Note_resolve cfg w n db None (Some p) = Some (Inr x', db1')
    \<and> Note_resolve cfg w m db1' None (Some p) = Some (y, db2)"
  then have "served w p" "p_uri p = u"
    "Note_resolve cfg w n db None (Some p) = Some (Inr x', db1')"
    "Note_resolve cfg w m db1' None (Some p) = Some (y, db2)" by simp_all
  from resolve_twice_aux_payload [OF assms this]
  show "\<exists>row. rows_with_uri db1' u = [row] \<and> length (rows_with_uri db2 u) = 1
          \<and> (\<forall>z. y = Inr z \<longrightarrow>
               (\<exists>row'. rows_with_uri db2 u = [row'] \<and> note_id row' = note_id row
                  \<and> visibility row' = p_visibility p
                  \<and> sensitive row' = (case p_is_sensitive p of None \<Rightarrow> False | Some b \<Rightarrow> b)
                  \<and> spoilerText row' = (case p_subject p of None \<Rightarrow> [] | Some s \<Rightarrow> s)))" .
qed

lemma consistent_fed_world: "consistent fed_world"
  by (auto simp: consistent_def fed_world_def serving_def split: if_splits)

lemma resolve_twice_one_row_fed:
  "length (rows_with_uri resolved_by_uri ''https://remote.example/notes/2'') = 1
   \<and> length (rows_with_uri delivered_once ''https://remote.example/notes/2'') = 1
   \<and> length (rows_with_uri
        (store_after (Note_resolve example_config fed_world 4 delivered_once None
           (Some reply_payload))) ''https://remote.example/notes/2'') = 1"
proof -
  let ?u = "''https://remote.example/notes/2''"
  let ?R1 = "Note_resolve example_config fed_world 4 example_store (Some ?u) None"
  let ?P1 = "Note_resolve example_config fed_world 4 example_store None (Some reply_payload)"
  let ?P2 = "Note_resolve example_config fed_world 4 delivered_once None (Some reply_payload)"
  have r: "remote_uri example_config ?u"
    by (simp add: remote_uri_def example_config_def)
  have ns: "\<not> stored example_store ?u"
    by (simp add: stored_def note_uris_def example_store_def empty_store_def)
  have sv: "served fed_world reply_payload" "p_uri reply_payload = ?u"
    by (simp_all add: served_def fed_world_def serving_def reply_payload_def root_payload_def)
  have "case ?R1 of Some (Inr x, d) \<Rightarrow> True | _ \<Rightarrow> False" by code_simp
  then obtain x1 where r1: "?R1 = Some (Inr x1, resolved_by_uri)"
    by (auto simp: resolved_by_uri_def store_after_def split: option.splits sum.splits)
  have "case ?P1 of Some (Inr x, d) \<Rightarrow> True | _ \<Rightarrow> False" by code_simp
  then obtain x2 where p1: "?P1 = Some (Inr x2, delivered_once)"
    by (auto simp: delivered_once_def store_after_def split: option.splits sum.splits)
  have "case ?P2 of Some (x, d) \<Rightarrow> True | _ \<Rightarrow> False" by code_simp
  then obtain y where p2: "?P2 = Some (y, store_after ?P2)"
    by (auto simp: store_after_def split: option.splits)
  note t = resolve_twice_one_row [OF consistent_fed_world r ns,
      where n = 4 and m = 4 and p = reply_payload]
  from t [where x = x1 and ?db1.0 = resolved_by_uri] r1
  have a: "length (rows_with_uri resolved_by_uri ?u) = 1" by blast
  from t [where x' = x2 and db1' = delivered_once and y = y and ?db2.0 = "store_after ?P2"]
    sv p1 p2
  have "\<exists>row. rows_with_uri delivered_once ?u = [row]
          \<and> length (rows_with_uri (store_after ?P2) ?u) = 1" by blast
  with a show ?thesis by auto
qed

text \<open>
  Why the remote has to be consistent: when bob's note is stored and the remote serves
  it at a second URI too, resolving that URI stores a second row under the note's uri.
  And what the count of allowed calls stands for: on a note served as a reply to itself
  the resolution has not come back after 9 calls, and no number of calls lets it succeed.
\<close>

lemma inconsistent_remote_duplicates:
  "note_uris (store_after (Note_resolve example_config inconsistent_world 4 resolved_by_uri
       (Some ''https://remote.example/notes/9'') None))
     = [Some ''https://remote.example/notes/1'', Some ''https://remote.example/notes/2'',
        Some ''https://remote.example/notes/2'']"
  by code_simp

lemma self_reply_does_not_return:
  "Note_resolve example_config looping_world 9 example_store
     (Some ''https://remote.example/notes/2'') None = None"
  by code_simp

lemma self_reply_never_resolves:
  assumes c: "consistent w" and r: "remote_uri cfg u" and ns: "\<not> stored db u"
    and p: "fetch_note w u = Inr (Some p)"
    and self: "p_replies_to p = Some u \<or> p_quotes p = Some u"
  shows "Note_resolve cfg w n db (Some u) None \<noteq> Some (Inr x, db')"
proof
  assume "Note_resolve cfg w n db (Some u) None = Some (Inr x, db')"
  with r ns obtain n' where "Note_saveFromRemote cfg w n' db (Some u) None = Some (Inr x, db')"
    by (auto elim: resolve_remote_is_save)
  then show False
  proof (cases rule: save_Suc_Inr)
    case (1 m fs nt author emojis ms rid qid d)
    from r have wf: "wf_call w (Some u) None" by (simp add: wf_call_def remote_uri_def)
    have lk: "lookup_key (Some u) None = u" by (simp add: lookup_key_def)
    from 1(2) obtain a1 where
      b: "saveFromRemote_begin cfg w db (Some u) None = (Inr (fs, nt, author, emojis), a1)"
      by (auto elim: deps_Inr_cases)
    from begin_key(3) [OF b c wf] p have "nt = p" unfolding lk by simp
    with deps_targets_stored [OF c 1(2) _ r] self have "stored d u" by simp
    moreover from no_self_insert [OF c wf 1(2)] ns have "\<not> stored d u" unfolding lk by simp
    ultimately show False by simp
  qed
qed


end
